theory Spec2Isabelle
  imports Complex_Main "HOL-Library.Word"
begin

section \<open>Values handled by the bridge\<close>

text \<open>
  The bridge of \<^verbatim>\<open>main.ts\<close> relays UDP datagrams to WebSocket clients and back.
  A datagram payload is a \<^verbatim>\<open>Buffer\<close>, a sequence of bytes.  A client message is a
  text that \<^verbatim>\<open>JSON.parse\<close> turns into a value; the model starts from that value
  (\<open>None\<close> when \<^verbatim>\<open>JSON.parse\<close> throws a SyntaxError).  A number of the value is
  a double: a finite one is a rational, and a literal beyond the range of doubles is
  read as an infinity.  An object lists each of its properties once.  A property that
  an object does not have reads as \<^verbatim>\<open>undefined\<close>, here \<open>None\<close> of type
  \<open>json option\<close>.
\<close>

type_synonym byte = "8 word"

type_synonym ws_id = nat

type_synonym handler_id = nat

datatype number = Finite rat | PosInfinity | NegInfinity

datatype json =
    JNull
  | JBool bool
  | JNum number
  | JStr string
  | JArr "json list"
  | JObj "(string \<times> json) list"

datatype js_error = SyntaxError | TypeError | SocketError | BindFailure

text \<open>
  Reading one of the properties \<^verbatim>\<open>type\<close>, \<^verbatim>\<open>data\<close>, \<^verbatim>\<open>port\<close>, \<^verbatim>\<open>address\<close>: a
  property of \<^verbatim>\<open>null\<close> throws a TypeError, an object gives its member, and every
  other value (boolean, number, string, array) has none of the four.
\<close>

fun member :: "json \<Rightarrow> string \<Rightarrow> json option" where
  "member (JObj fs) k = map_of fs k"
| "member v k = None"

fun get_prop :: "json \<Rightarrow> string \<Rightarrow> js_error + json option" where
  "get_prop JNull k = Inl TypeError"
| "get_prop v k = Inr (member v k)"

subsection \<open>The library calls the bridge makes\<close>

text \<open>
  What \<^verbatim>\<open>udpSocket.send\<close> does with its arguments is decided by the datagram library
  and the network: it throws at once (an argument it refuses), or it reports an error
  to the callback, or it hands the datagram to the network.  \<^verbatim>\<open>Buffer.from\<close> on an
  array stores one byte per entry; what it makes of a string or of an object that is
  not an array, and of an array entry that is not a number, is the library's business
  too.  These three behaviours are parameters of the model.
\<close>

datatype send_outcome = Throws | CallbackError | CallbackOk

record platform =
  dgram_send :: "byte list \<Rightarrow> json option \<Rightarrow> json option \<Rightarrow> send_outcome"
  Buffer_from_value :: "json \<Rightarrow> byte list option"
  entry_byte :: "json \<Rightarrow> byte"

text \<open>
  A number stored into a byte array is truncated towards zero and reduced modulo 256;
  the infinities are stored as 0.
\<close>

definition trunc :: "rat \<Rightarrow> int" where
  "trunc r = (if r < 0 then \<lceil>r\<rceil> else \<lfloor>r\<rfloor>)"

fun ToUint8 :: "number \<Rightarrow> byte" where
  "ToUint8 (Finite r) = word_of_int (trunc r)"
| "ToUint8 PosInfinity = 0"
| "ToUint8 NegInfinity = 0"

fun array_entry :: "platform \<Rightarrow> json \<Rightarrow> byte" where
  "array_entry lib (JNum n) = ToUint8 n"
| "array_entry lib v = entry_byte lib v"

fun Buffer_from :: "platform \<Rightarrow> json option \<Rightarrow> js_error + byte list" where
  "Buffer_from lib None = Inl TypeError"
| "Buffer_from lib (Some (JArr xs)) = Inr (map (array_entry lib) xs)"
| "Buffer_from lib (Some (JStr t)) =
     (case Buffer_from_value lib (JStr t) of None \<Rightarrow> Inl TypeError | Some buf \<Rightarrow> Inr buf)"
| "Buffer_from lib (Some (JObj fs)) =
     (case Buffer_from_value lib (JObj fs) of None \<Rightarrow> Inl TypeError | Some buf \<Rightarrow> Inr buf)"
| "Buffer_from lib (Some v) = Inl TypeError"

subsection \<open>The key of the suppression table\<close>

text \<open>
  \<^verbatim>\<open>JSON.stringify({ data: [...msg] })\<close>: the bytes in decimal, separated by commas.
\<close>

definition digit :: "nat \<Rightarrow> char" where
  "digit d = (''0123456789'' ! d)"

fun decimal :: "nat \<Rightarrow> string" where
  "decimal n = (if n < 10 then [digit n] else decimal (n div 10) @ [digit (n mod 10)])"

declare decimal.simps [simp del]

fun join_commas :: "string list \<Rightarrow> string" where
  "join_commas [] = []"
| "join_commas [x] = x"
| "join_commas (x # y # ys) = x @ '','' @ join_commas (y # ys)"

definition msgKey :: "byte list \<Rightarrow> string" where
  \<open>msgKey msg = ''{"data":['' @ join_commas (map (\<lambda>b. decimal (unat b)) msg) @ '']}''\<close>

section \<open>The state of the bridge\<close>

datatype ReadyState = CONNECTING | OPEN | CLOSING | CLOSED

datatype promise = Pending | Resolved | Rejected

record RemoteInfo =
  address :: string
  port :: nat

datatype log_line =
    SocketListening
  | SocketErrorLine
  | BrowserConnected ws_id
  | BrowserDisconnected
  | UdpSendError
  | InvalidWSMessage js_error

text \<open>
  Everything the bridge does to the outside, and every registration in the table, in
  the order it happens: a \<^verbatim>\<open>sentMessages.set\<close>, a call of \<^verbatim>\<open>udpSocket.send\<close> with its
  outcome, a call of \<^verbatim>\<open>ws.send\<close> (with the object that is stringified), a console line.
\<close>

datatype effect =
    SentMessagesSet string int
  | UdpSend "byte list" "json option" "json option" send_outcome
  | WsSend ws_id json
  | Console log_line

text \<open>
  \<open>listeners\<close> are the \<^verbatim>\<open>message\<close> listeners of the socket in the order of their
  registration, each the closure made by one \<^verbatim>\<open>open\<close> (its identity, and the
  connection it captured); \<open>ws_data\<close> is \<^verbatim>\<open>ws.data.udpHandler\<close>; \<open>awaiting\<close> are the
  messages whose handler waits at \<^verbatim>\<open>await udpReady\<close>.  Every \<^verbatim>\<open>open\<close> makes a new
  closure, so an identity occurs at most once among the listeners and \<^verbatim>\<open>off\<close> removes
  the one listener that has it.  The listener of the top level, which does nothing, is
  left out.
\<close>

record bridge =
  udpReady :: promise
  sentMessages :: "string \<rightharpoonup> int"
  listeners :: "(handler_id \<times> ws_id) list"
  ws_data :: "ws_id \<rightharpoonup> handler_id"
  readyState :: "ws_id \<Rightarrow> ReadyState"
  next_handler :: handler_id
  awaiting :: "json option list"
  effects :: "effect list"

definition startup :: bridge where
  "startup = \<lparr>udpReady = Pending, sentMessages = Map.empty, listeners = [],
     ws_data = Map.empty, readyState = (\<lambda>ws. CONNECTING), next_handler = 0,
     awaiting = [], effects = []\<rparr>"

definition perform :: "effect \<Rightarrow> bridge \<Rightarrow> bridge" where
  "perform e s = s\<lparr>effects := effects s @ [e]\<rparr>"

fun ws_sends :: "effect list \<Rightarrow> (ws_id \<times> json) list" where
  "ws_sends [] = []"
| "ws_sends (WsSend ws v # es) = (ws, v) # ws_sends es"
| "ws_sends (e # es) = ws_sends es"

fun udp_sends :: "effect list \<Rightarrow> (byte list \<times> json option \<times> json option \<times> send_outcome) list" where
  "udp_sends [] = []"
| "udp_sends (UdpSend buf p a r # es) = (buf, p, a, r) # udp_sends es"
| "udp_sends (e # es) = udp_sends es"

section \<open>The echo filter\<close>

definition NO_ECHO_TIMEOUT :: int where
  "NO_ECHO_TIMEOUT = 100"

text \<open>
  The body of the timer that runs every 50 ms, at the clock reading \<open>now\<close>: the loop
  deletes every entry whose age exceeds the timeout and keeps the others, which is the
  table given here key by key.
\<close>

definition sweep :: "int \<Rightarrow> bridge \<Rightarrow> bridge" where
  "sweep now s = s\<lparr>sentMessages :=
     (\<lambda>key. case sentMessages s key of
        None \<Rightarrow> None
      | Some timestamp \<Rightarrow> if now - timestamp > NO_ECHO_TIMEOUT then None else Some timestamp)\<rparr>"

section \<open>UDP to browser\<close>

text \<open>\<^verbatim>\<open>[...msg]\<close>: the bytes of a buffer as an array of numbers.\<close>

definition spread :: "byte list \<Rightarrow> json" where
  "spread msg = JArr (map (\<lambda>b. JNum (Finite (of_nat (unat b)))) msg)"

definition udp_message :: "RemoteInfo \<Rightarrow> byte list \<Rightarrow> json" where
  "udp_message rinfo msg = JObj
     [(''type'', JStr ''udp-message''),
      (''address'', JStr (address rinfo)),
      (''port'', JNum (Finite (of_nat (port rinfo)))),
      (''data'', spread msg)]"

definition udpHandler :: "ws_id \<Rightarrow> byte list \<Rightarrow> RemoteInfo \<Rightarrow> bridge \<Rightarrow> bridge" where
  "udpHandler ws msg rinfo s =
     (let key = msgKey msg in
      if sentMessages s key \<noteq> None then s
      else if readyState s ws = OPEN then perform (WsSend ws (udp_message rinfo msg)) s
      else s)"

text \<open>The socket calls every listener, in order, with the datagram.\<close>

definition emit_message :: "byte list \<Rightarrow> RemoteInfo \<Rightarrow> bridge \<Rightarrow> bridge" where
  "emit_message msg rinfo s = fold (\<lambda>(h, ws). udpHandler ws msg rinfo) (listeners s) s"

section \<open>The WebSocket handlers\<close>

definition websocket_open :: "ws_id \<Rightarrow> bridge \<Rightarrow> bridge" where
  "websocket_open ws s =
     (let s1 = perform (Console (BrowserConnected ws)) s;
          handler = next_handler s1
      in s1\<lparr>listeners := listeners s1 @ [(handler, ws)],
            ws_data := (ws_data s1)(ws \<mapsto> handler),
            next_handler := Suc handler\<rparr>)"

definition websocket_close :: "ws_id \<Rightarrow> bridge \<Rightarrow> bridge" where
  "websocket_close ws s =
     (let s1 = perform (Console BrowserDisconnected) s
      in case ws_data s1 ws of
           None \<Rightarrow> s1
         | Some handler \<Rightarrow> s1\<lparr>listeners := filter (\<lambda>l. fst l \<noteq> handler) (listeners s1)\<rparr>)"

text \<open>
  The call of \<^verbatim>\<open>udpSocket.send\<close>.  A refusal is thrown to the caller; an error given to
  the callback is logged.
\<close>

definition udpSocket_send ::
  "platform \<Rightarrow> byte list \<Rightarrow> json option \<Rightarrow> json option \<Rightarrow> bridge \<Rightarrow> bridge \<times> js_error option" where
  "udpSocket_send lib buf p a s =
     (let outcome = dgram_send lib buf p a;
          s1 = perform (UdpSend buf p a outcome) s
      in case outcome of
           Throws \<Rightarrow> (s1, Some SocketError)
         | CallbackError \<Rightarrow> (perform (Console UdpSendError) s1, None)
         | CallbackOk \<Rightarrow> (s1, None))"

definition udp_send :: "platform \<Rightarrow> json \<Rightarrow> bridge \<Rightarrow> bridge \<times> js_error option" where
  "udp_send lib msg s =
     (case Buffer_from lib (member msg ''data'') of
        Inl e \<Rightarrow> (s, Some e)
      | Inr buf \<Rightarrow> udpSocket_send lib buf (member msg ''port'') (member msg ''address'') s)"

definition udp_send_no_echo :: "platform \<Rightarrow> json \<Rightarrow> int \<Rightarrow> bridge \<Rightarrow> bridge \<times> js_error option" where
  "udp_send_no_echo lib msg now s =
     (case Buffer_from lib (member msg ''data'') of
        Inl e \<Rightarrow> (s, Some e)
      | Inr buf \<Rightarrow>
          (let key = msgKey buf;
               s1 = perform (SentMessagesSet key now)
                      (s\<lparr>sentMessages := (sentMessages s)(key \<mapsto> now)\<rparr>)
           in udpSocket_send lib buf (member msg ''port'') (member msg ''address'') s1))"

text \<open>The \<^verbatim>\<open>try\<close> block of \<^verbatim>\<open>message\<close>: the state it leaves and the exception, if any.\<close>

definition try_block :: "platform \<Rightarrow> json option \<Rightarrow> int \<Rightarrow> bridge \<Rightarrow> bridge \<times> js_error option" where
  "try_block lib parsed now s =
     (case parsed of
        None \<Rightarrow> (s, Some SyntaxError)
      | Some msg \<Rightarrow>
          (case get_prop msg ''type'' of
             Inl e \<Rightarrow> (s, Some e)
           | Inr ty \<Rightarrow>
               (case (if ty = Some (JStr ''udp-send'') then udp_send lib msg s else (s, None)) of
                  (s1, Some e) \<Rightarrow> (s1, Some e)
                | (s1, None) \<Rightarrow>
                    if ty = Some (JStr ''udp-send-no-echo'') then udp_send_no_echo lib msg now s1
                    else (s1, None))))"

definition message_body :: "platform \<Rightarrow> json option \<Rightarrow> int \<Rightarrow> bridge \<Rightarrow> bridge" where
  "message_body lib parsed now s =
     (case try_block lib parsed now s of
        (s1, None) \<Rightarrow> s1
      | (s1, Some err) \<Rightarrow> perform (Console (InvalidWSMessage err)) s1)"

text \<open>
  \<^verbatim>\<open>message\<close> waits for the socket first: with the promise pending the handler is
  suspended, with the promise rejected it throws outside its \<^verbatim>\<open>try\<close>.
\<close>

definition websocket_message :: "platform \<Rightarrow> ws_id \<Rightarrow> json option \<Rightarrow> int \<Rightarrow> bridge \<Rightarrow> js_error + bridge" where
  "websocket_message lib ws parsed now s =
     (case udpReady s of
        Pending \<Rightarrow> Inr (s\<lparr>awaiting := awaiting s @ [parsed]\<rparr>)
      | Rejected \<Rightarrow> Inl BindFailure
      | Resolved \<Rightarrow> Inr (message_body lib parsed now s))"

text \<open>
  The two listeners of the promise \<^verbatim>\<open>udpReady\<close>.  \<^verbatim>\<open>bind\<close> is called once, so the socket
  reports one of the two, once.  When the promise resolves, the suspended handlers go on
  in their order.
\<close>

definition on_listening :: "platform \<Rightarrow> int \<Rightarrow> bridge \<Rightarrow> bridge" where
  "on_listening lib now s =
     (if udpReady s = Pending
      then fold (\<lambda>parsed. message_body lib parsed now) (awaiting s)
             (perform (Console SocketListening) (s\<lparr>udpReady := Resolved, awaiting := []\<rparr>))
      else s)"

definition on_error :: "bridge \<Rightarrow> bridge" where
  "on_error s =
     (if udpReady s = Pending
      then perform (Console SocketErrorLine) (s\<lparr>udpReady := Rejected, awaiting := []\<rparr>)
      else s)"

section \<open>Runs of the bridge\<close>

text \<open>
  The events of the event loop, with the reading of \<^verbatim>\<open>Date.now()\<close> where the code takes
  one.  The runtime sets the \<^verbatim>\<open>readyState\<close> of a connection: \<open>OPEN\<close> when it calls
  \<^verbatim>\<open>open\<close>, \<open>CLOSING\<close> when the closing handshake starts, \<open>CLOSED\<close> when it calls
  \<^verbatim>\<open>close\<close>.
\<close>

datatype event =
    BindListening int
  | BindError
  | Sweep int
  | WsOpen ws_id
  | WsMessage ws_id "json option" int
  | WsClosing ws_id
  | WsClose ws_id
  | Datagram "byte list" RemoteInfo

fun step :: "platform \<Rightarrow> bridge \<Rightarrow> event \<Rightarrow> bridge" where
  "step lib s (BindListening now) = on_listening lib now s"
| "step lib s BindError = on_error s"
| "step lib s (Sweep now) = sweep now s"
| "step lib s (WsOpen ws) = websocket_open ws (s\<lparr>readyState := (readyState s)(ws := OPEN)\<rparr>)"
| "step lib s (WsMessage ws parsed now) =
     (case websocket_message lib ws parsed now s of Inl e \<Rightarrow> s | Inr s1 \<Rightarrow> s1)"
| "step lib s (WsClosing ws) = s\<lparr>readyState := (readyState s)(ws := CLOSING)\<rparr>"
| "step lib s (WsClose ws) = websocket_close ws (s\<lparr>readyState := (readyState s)(ws := CLOSED)\<rparr>)"
| "step lib s (Datagram msg rinfo) = emit_message msg rinfo s"

definition run :: "platform \<Rightarrow> event list \<Rightarrow> bridge \<Rightarrow> bridge" where
  "run lib evs s = foldl (step lib) s evs"

section \<open>Notions used to state the properties\<close>

text \<open>
  The connections a datagram is pushed to: those of the listeners, in their order, whose
  channel is open.
\<close>

definition receivers :: "bridge \<Rightarrow> ws_id list" where
  "receivers s = filter (\<lambda>ws. readyState s ws = OPEN) (map snd (listeners s))"

text \<open>The clock reading an event carries, and runs whose readings lie in an interval.\<close>

fun clock :: "event \<Rightarrow> int option" where
  "clock (BindListening now) = Some now"
| "clock (Sweep now) = Some now"
| "clock (WsMessage ws parsed now) = Some now"
| "clock e = None"

definition clocks_within :: "int \<Rightarrow> int \<Rightarrow> event list \<Rightarrow> bool" where
  "clocks_within lo hi evs =
     list_all (\<lambda>e. case clock e of None \<Rightarrow> True | Some t \<Rightarrow> lo \<le> t \<and> t \<le> hi) evs"

text \<open>An event that asks for the payload \<open>P\<close> to be sent without echo.\<close>

fun registers :: "platform \<Rightarrow> byte list \<Rightarrow> event \<Rightarrow> bool" where
  "registers lib P (WsMessage ws (Some msg) now) =
     (member msg ''type'' = Some (JStr ''udp-send-no-echo'') \<and>
      Buffer_from lib (member msg ''data'') = Inr P)"
| "registers lib P e = False"

text \<open>
  What a run says about a connection, read off the events alone: the connections it
  opened; whether the connection was opened and not closed since (\<open>subscribed\<close>);
  whether it was opened and has neither started closing nor closed since (\<open>is_connected\<close>).
\<close>

fun opened :: "event list \<Rightarrow> ws_id list" where
  "opened [] = []"
| "opened (WsOpen ws # evs) = ws # opened evs"
| "opened (e # evs) = opened evs"

fun subscribed_step :: "ws_id \<Rightarrow> bool \<Rightarrow> event \<Rightarrow> bool" where
  "subscribed_step ws c (WsOpen w) = (if w = ws then True else c)"
| "subscribed_step ws c (WsClose w) = (if w = ws then False else c)"
| "subscribed_step ws c e = c"

definition subscribed :: "event list \<Rightarrow> ws_id \<Rightarrow> bool" where
  "subscribed evs ws = foldl (subscribed_step ws) False evs"

fun is_connected_step :: "ws_id \<Rightarrow> bool \<Rightarrow> event \<Rightarrow> bool" where
  "is_connected_step ws c (WsOpen w) = (if w = ws then True else c)"
| "is_connected_step ws c (WsClosing w) = (if w = ws then False else c)"
| "is_connected_step ws c (WsClose w) = (if w = ws then False else c)"
| "is_connected_step ws c e = c"

definition is_connected :: "event list \<Rightarrow> ws_id \<Rightarrow> bool" where
  "is_connected evs ws = foldl (is_connected_step ws) False evs"

text \<open>
  Sample inputs: a network on which every send succeeds and one on which every send
  fails, a client message with a given discriminator key, and a source address.
\<close>

definition network_up :: platform where
  "network_up = \<lparr>dgram_send = (\<lambda>buf p a. CallbackOk),
     Buffer_from_value = (\<lambda>v. None), entry_byte = (\<lambda>v. 0)\<rparr>"

definition network_down :: platform where
  "network_down = \<lparr>dgram_send = (\<lambda>buf p a. CallbackError),
     Buffer_from_value = (\<lambda>v. None), entry_byte = (\<lambda>v. 0)\<rparr>"

definition client_message :: "string \<Rightarrow> string \<Rightarrow> int list \<Rightarrow> json" where
  "client_message discriminator ty entries = JObj
     [(discriminator, JStr ty),
      (''address'', JStr ''127.0.0.1''),
      (''port'', JNum (Finite 6454)),
      (''data'', JArr (map (\<lambda>n. JNum (Finite (of_int n))) entries))]"

definition loopback :: RemoteInfo where
  "loopback = \<lparr>address = ''127.0.0.1'', port = 6454\<rparr>"

text \<open>What follows a call of \<^verbatim>\<open>udpSocket.send\<close> in the log, by its outcome.\<close>

fun after_send :: "send_outcome \<Rightarrow> effect list" where
  "after_send Throws = [Console (InvalidWSMessage SocketError)]"
| "after_send CallbackError = [Console UdpSendError]"
| "after_send CallbackOk = []"

section \<open>The key is the payload\<close>

lemma digit_not_comma: "d < 10 \<Longrightarrow> digit d \<noteq> CHR '',''"
proof -
  assume "d < 10"
  then have "d \<in> {0,1,2,3,4,5,6,7,8,9}" by auto
  then show ?thesis by (auto simp: digit_def)
qed

lemma digit_inj: "d < 10 \<Longrightarrow> e < 10 \<Longrightarrow> digit d = digit e \<Longrightarrow> d = e"
proof -
  assume "d < 10" "e < 10" and eq: "digit d = digit e"
  then have "d \<in> {0,1,2,3,4,5,6,7,8,9}" "e \<in> {0,1,2,3,4,5,6,7,8,9}" by auto
  with eq show ?thesis unfolding digit_def by (elim insertE emptyE; simp)
qed

lemma decimal_not_Nil: "decimal n \<noteq> []"
  by (subst decimal.simps) simp

lemma decimal_no_comma: "CHR '','' \<notin> set (decimal n)"
proof (induction n rule: decimal.induct)
  case (1 n)
  show ?case
  proof (cases "n < 10")
    case True
    then show ?thesis using digit_not_comma [of n] by (subst decimal.simps) auto
  next
    case False
    have "n mod 10 < 10" by simp
    then have "digit (n mod 10) \<noteq> CHR '',''" by (rule digit_not_comma)
    with False 1 show ?thesis by (subst decimal.simps) auto
  qed
qed

lemma decimal_inj: "decimal n = decimal m \<Longrightarrow> n = m"
proof (induction n arbitrary: m rule: decimal.induct)
  case (1 n)
  show ?case
  proof (cases "n < 10")
    case n: True
    show ?thesis
    proof (cases "m < 10")
      case True
      with n 1(2) show ?thesis
        by (simp add: decimal.simps [of n] decimal.simps [of m] digit_inj)
    next
      case False
      with n 1(2) have "[digit n] = decimal (m div 10) @ [digit (m mod 10)]"
        by (simp add: decimal.simps [of n] decimal.simps [of m])
      then have "decimal (m div 10) = []" by simp
      then show ?thesis by (simp add: decimal_not_Nil)
    qed
  next
    case n: False
    show ?thesis
    proof (cases "m < 10")
      case True
      with n 1(2) have "decimal (n div 10) @ [digit (n mod 10)] = [digit m]"
        by (simp add: decimal.simps [of n] decimal.simps [of m])
      then have "decimal (n div 10) = []" by simp
      then show ?thesis by (simp add: decimal_not_Nil)
    next
      case False
      with n 1(2) have eq: "decimal (n div 10) @ [digit (n mod 10)] = decimal (m div 10) @ [digit (m mod 10)]"
        by (simp add: decimal.simps [of n] decimal.simps [of m])
      then have "decimal (n div 10) = decimal (m div 10)" and d: "digit (n mod 10) = digit (m mod 10)"
        by simp_all
      with n 1(1) have q: "n div 10 = m div 10" by blast
      have "n mod 10 = m mod 10" using d by (intro digit_inj) simp_all
      with q show ?thesis by (metis div_mult_mod_eq)
    qed
  qed
qed

lemma comma_split:
  assumes "CHR '','' \<notin> set x" "CHR '','' \<notin> set y" "x @ CHR '','' # r = y @ CHR '','' # r'"
  shows "x = y \<and> r = r'"
proof -
  have "takeWhile (\<lambda>c. c \<noteq> CHR '','') (x @ CHR '','' # r) = x"
    using assms(1) by (induction x) auto
  moreover have "takeWhile (\<lambda>c. c \<noteq> CHR '','') (y @ CHR '','' # r') = y"
    using assms(2) by (induction y) auto
  ultimately have "x = y" using assms(3) by simp
  with assms(3) show ?thesis by simp
qed

lemma join_commas_Cons:
  "join_commas (x # xs) = (if xs = [] then x else x @ CHR '','' # join_commas xs)"
  by (cases xs) simp_all

lemma join_commas_inj:
  assumes "\<forall>x \<in> set xs. x \<noteq> [] \<and> CHR '','' \<notin> set x"
    and "\<forall>y \<in> set ys. y \<noteq> [] \<and> CHR '','' \<notin> set y"
    and "join_commas xs = join_commas ys"
  shows "xs = ys"
  using assms
proof (induction xs arbitrary: ys)
  case Nil
  then show ?case by (cases ys) (auto simp: join_commas_Cons split: if_splits)
next
  case (Cons x xs)
  show ?case
  proof (cases ys)
    case Nil
    with Cons.prems show ?thesis by (auto simp: join_commas_Cons split: if_splits)
  next
    case ys: (Cons y ys')
    from Cons.prems ys have x: "x \<noteq> []" "CHR '','' \<notin> set x" and y: "y \<noteq> []" "CHR '','' \<notin> set y"
      by auto
    show ?thesis
    proof (cases "xs = []")
      case xs: True
      show ?thesis
      proof (cases "ys' = []")
        case True
        with xs ys Cons.prems show ?thesis by simp
      next
        case False
        with xs ys Cons.prems have "x = y @ CHR '','' # join_commas ys'"
          by (simp add: join_commas_Cons)
        with x show ?thesis by auto
      qed
    next
      case xs: False
      show ?thesis
      proof (cases "ys' = []")
        case True
        with xs ys Cons.prems have "x @ CHR '','' # join_commas xs = y"
          by (simp add: join_commas_Cons)
        with y show ?thesis by auto
      next
        case False
        with xs ys Cons.prems have "x @ CHR '','' # join_commas xs = y @ CHR '','' # join_commas ys'"
          by (simp add: join_commas_Cons)
        with x y have "x = y" "join_commas xs = join_commas ys'"
          using comma_split by blast+
        moreover from Cons.prems ys have "xs = ys'" if "join_commas xs = join_commas ys'"
          using that by (intro Cons.IH) auto
        ultimately show ?thesis using ys by simp
      qed
    qed
  qed
qed

lemma msgKey_inj: "msgKey a = msgKey b \<Longrightarrow> a = b"
proof -
  assume "msgKey a = msgKey b"
  then have "join_commas (map (\<lambda>b. decimal (unat b)) a) = join_commas (map (\<lambda>b. decimal (unat b)) b)"
    by (simp add: msgKey_def)
  then have "map (\<lambda>b. decimal (unat b)) a = map (\<lambda>b. decimal (unat b)) b"
    by (intro join_commas_inj) (auto simp: decimal_not_Nil decimal_no_comma)
  moreover have "inj (\<lambda>b::byte. decimal (unat b))"
    by (rule injI) (auto dest!: decimal_inj simp: word_unat_eq_iff)
  ultimately show ?thesis by (simp add: inj_map_eq_map)
qed



section \<open>What one message does\<close>

lemma get_prop_not_null: "msg \<noteq> JNull \<Longrightarrow> get_prop msg k = Inr (member msg k)"
  by (cases msg) simp_all


lemma message_body_syntax:
  "message_body lib None now s = perform (Console (InvalidWSMessage SyntaxError)) s"
  by (simp add: message_body_def try_block_def)

lemma message_body_null:
  "message_body lib (Some JNull) now s = perform (Console (InvalidWSMessage TypeError)) s"
  by (simp add: message_body_def try_block_def)

lemma message_body_other:
  assumes "msg \<noteq> JNull" "member msg ''type'' \<noteq> Some (JStr ''udp-send'')"
    "member msg ''type'' \<noteq> Some (JStr ''udp-send-no-echo'')"
  shows "message_body lib (Some msg) now s = s"
  using assms by (simp add: message_body_def try_block_def get_prop_not_null)

lemma type_not_null: "member msg ''type'' = Some v \<Longrightarrow> msg \<noteq> JNull"
  by auto

lemma message_body_plain_bad:
  assumes "member msg ''type'' = Some (JStr ''udp-send'')"
    "Buffer_from lib (member msg ''data'') = Inl e"
  shows "message_body lib (Some msg) now s = perform (Console (InvalidWSMessage e)) s"
  using assms type_not_null [OF assms(1)]
  by (simp add: message_body_def try_block_def get_prop_not_null udp_send_def)

lemma message_body_plain:
  assumes "member msg ''type'' = Some (JStr ''udp-send'')"
    "Buffer_from lib (member msg ''data'') = Inr P"
  shows "message_body lib (Some msg) now s =
     s\<lparr>effects := effects s @
        UdpSend P (member msg ''port'') (member msg ''address'')
          (dgram_send lib P (member msg ''port'') (member msg ''address''))
        # after_send (dgram_send lib P (member msg ''port'') (member msg ''address''))\<rparr>"
  using assms type_not_null [OF assms(1)]
  by (cases "dgram_send lib P (member msg ''port'') (member msg ''address'')")
     (simp_all add: message_body_def try_block_def get_prop_not_null udp_send_def
        udpSocket_send_def perform_def Let_def)

lemma message_body_no_echo_bad:
  assumes "member msg ''type'' = Some (JStr ''udp-send-no-echo'')"
    "Buffer_from lib (member msg ''data'') = Inl e"
  shows "message_body lib (Some msg) now s = perform (Console (InvalidWSMessage e)) s"
  using assms type_not_null [OF assms(1)]
  by (simp add: message_body_def try_block_def get_prop_not_null udp_send_no_echo_def)

lemma message_body_no_echo:
  assumes "member msg ''type'' = Some (JStr ''udp-send-no-echo'')"
    "Buffer_from lib (member msg ''data'') = Inr P"
  shows "message_body lib (Some msg) now s =
     s\<lparr>sentMessages := (sentMessages s)(msgKey P \<mapsto> now),
       effects := effects s @
        SentMessagesSet (msgKey P) now
        # UdpSend P (member msg ''port'') (member msg ''address'')
            (dgram_send lib P (member msg ''port'') (member msg ''address''))
        # after_send (dgram_send lib P (member msg ''port'') (member msg ''address''))\<rparr>"
  using assms type_not_null [OF assms(1)]
  by (cases "dgram_send lib P (member msg ''port'') (member msg ''address'')")
     (simp_all add: message_body_def try_block_def get_prop_not_null udp_send_no_echo_def
        udpSocket_send_def perform_def Let_def)

text \<open>The cases of a message, for proofs by cases.\<close>

lemma message_cases:
  obtains (invalid) "parsed = None"
  | (null) "parsed = Some JNull"
  | (other) msg where "parsed = Some msg" "msg \<noteq> JNull"
      "member msg ''type'' \<noteq> Some (JStr ''udp-send'')"
      "member msg ''type'' \<noteq> Some (JStr ''udp-send-no-echo'')"
  | (plain_bad) msg e where "parsed = Some msg" "member msg ''type'' = Some (JStr ''udp-send'')"
      "Buffer_from lib (member msg ''data'') = Inl e"
  | (plain) msg P where "parsed = Some msg" "member msg ''type'' = Some (JStr ''udp-send'')"
      "Buffer_from lib (member msg ''data'') = Inr P"
  | (no_echo_bad) msg e where "parsed = Some msg" "member msg ''type'' = Some (JStr ''udp-send-no-echo'')"
      "Buffer_from lib (member msg ''data'') = Inl e"
  | (no_echo) msg P where "parsed = Some msg" "member msg ''type'' = Some (JStr ''udp-send-no-echo'')"
      "Buffer_from lib (member msg ''data'') = Inr P"
proof (cases parsed)
  case None
  then show ?thesis by (rule invalid)
next
  case (Some msg)
  show ?thesis
  proof (cases "msg = JNull")
    case True
    with Some show ?thesis by (intro null) simp
  next
    case False
    show ?thesis
    proof (cases "Buffer_from lib (member msg ''data'')")
      case (Inl e)
      with Some False show ?thesis using other plain_bad no_echo_bad by blast
    next
      case (Inr P)
      with Some False show ?thesis using other plain no_echo by blast
    qed
  qed
qed

lemma message_body_frame:
  "listeners (message_body lib parsed now s) = listeners s"
  "ws_data (message_body lib parsed now s) = ws_data s"
  "readyState (message_body lib parsed now s) = readyState s"
  "next_handler (message_body lib parsed now s) = next_handler s"
  "udpReady (message_body lib parsed now s) = udpReady s"
  "awaiting (message_body lib parsed now s) = awaiting s"
  by (rule message_cases [where lib = lib and parsed = parsed];
      simp add: message_body_syntax message_body_null message_body_other message_body_plain_bad
        message_body_plain message_body_no_echo_bad message_body_no_echo perform_def)+

lemma message_body_sentMessages:
  "sentMessages (message_body lib parsed now s) k =
     (if \<exists>P. registers lib P (WsMessage ws parsed now) \<and> k = msgKey P then Some now
      else sentMessages s k)"
  by (rule message_cases [where lib = lib and parsed = parsed];
      simp add: message_body_syntax message_body_null message_body_other message_body_plain_bad
        message_body_plain message_body_no_echo_bad message_body_no_echo perform_def)


section \<open>What one datagram does\<close>

lemma fold_udpHandler_suppressed:
  "sentMessages s (msgKey msg) = Some t \<Longrightarrow>
   fold (\<lambda>(h, ws). udpHandler ws msg rinfo) ls s = s"
  by (induction ls) (auto simp: udpHandler_def)

lemma fold_udpHandler_delivered:
  "sentMessages s (msgKey msg) = None \<Longrightarrow>
   fold (\<lambda>(h, ws). udpHandler ws msg rinfo) ls s =
     s\<lparr>effects := effects s @
        map (\<lambda>ws. WsSend ws (udp_message rinfo msg)) (filter (\<lambda>ws. readyState s ws = OPEN) (map snd ls))\<rparr>"
proof (induction ls arbitrary: s)
  case Nil
  then show ?case by simp
next
  case (Cons l ls)
  obtain h ws where l: "l = (h, ws)" by (cases l)
  show ?case
  proof (cases "readyState s ws = OPEN")
    case True
    let ?s1 = "perform (WsSend ws (udp_message rinfo msg)) s"
    have "sentMessages ?s1 (msgKey msg) = None" using Cons.prems by (simp add: perform_def)
    from Cons.IH [OF this] l True Cons.prems show ?thesis
      by (simp add: udpHandler_def perform_def)
  next
    case False
    with Cons.IH [OF Cons.prems] l Cons.prems show ?thesis
      by (simp add: udpHandler_def)
  qed
qed

lemma emit_suppressed:
  "sentMessages s (msgKey msg) = Some t \<Longrightarrow> emit_message msg rinfo s = s"
  by (simp add: emit_message_def fold_udpHandler_suppressed)

lemma emit_delivered:
  "sentMessages s (msgKey msg) = None \<Longrightarrow>
   emit_message msg rinfo s =
     s\<lparr>effects := effects s @ map (\<lambda>ws. WsSend ws (udp_message rinfo msg)) (receivers s)\<rparr>"
  by (simp add: emit_message_def receivers_def fold_udpHandler_delivered)

lemma emit_frame:
  "sentMessages (emit_message msg rinfo s) = sentMessages s"
  "listeners (emit_message msg rinfo s) = listeners s"
  "ws_data (emit_message msg rinfo s) = ws_data s"
  "readyState (emit_message msg rinfo s) = readyState s"
  "next_handler (emit_message msg rinfo s) = next_handler s"
  "udpReady (emit_message msg rinfo s) = udpReady s"
  by (cases "sentMessages s (msgKey msg)"; simp add: emit_suppressed emit_delivered)+

lemma ws_sends_append: "ws_sends (es @ fs) = ws_sends es @ ws_sends fs"
  by (induction es rule: ws_sends.induct) simp_all

lemma udp_sends_append: "udp_sends (es @ fs) = udp_sends es @ udp_sends fs"
  by (induction es rule: udp_sends.induct) simp_all

lemma ws_sends_map_WsSend: "ws_sends (map (\<lambda>ws. WsSend ws v) wss) = map (\<lambda>ws. (ws, v)) wss"
  by (induction wss) simp_all

lemma udp_sends_after_send: "udp_sends (after_send r) = []"
  by (cases r) simp_all

section \<open>Runs\<close>

lemma run_Nil: "run lib [] s = s"
  by (simp add: run_def)

lemma run_Cons: "run lib (e # evs) s = run lib evs (step lib s e)"
  by (simp add: run_def)

lemma run_append: "run lib (evs @ evs') s = run lib evs' (run lib evs s)"
  by (simp add: run_def)

lemma step_Resolved: "udpReady s = Resolved \<Longrightarrow> udpReady (step lib s e) = Resolved"
  by (cases e)
     (simp_all add: on_listening_def on_error_def sweep_def websocket_open_def websocket_close_def
        perform_def websocket_message_def message_body_frame emit_frame Let_def split: option.splits)

lemma run_Resolved: "udpReady s = Resolved \<Longrightarrow> udpReady (run lib evs s) = Resolved"
  by (induction evs arbitrary: s) (simp_all add: run_Nil run_Cons step_Resolved)

text \<open>An entry younger than the window survives every event whose clock is in the window.\<close>

lemma message_body_sentMessages_or:
  "sentMessages (message_body lib parsed now s) k = sentMessages s k \<or>
   sentMessages (message_body lib parsed now s) k = Some now"
  by (simp add: message_body_sentMessages [where ws = 0])

lemma fold_message_body_sentMessages:
  "sentMessages (fold (\<lambda>parsed. message_body lib parsed now) ps s) k = sentMessages s k \<or>
   sentMessages (fold (\<lambda>parsed. message_body lib parsed now) ps s) k = Some now"
proof (induction ps arbitrary: s)
  case Nil
  then show ?case by simp
next
  case (Cons p ps)
  from Cons [of "message_body lib p now s"] message_body_sentMessages_or [of lib p now s k]
  show ?case by auto
qed

lemma step_sentMessages:
  "sentMessages (step lib s e) k = sentMessages s k \<or>
   (\<exists>now. clock e = Some now \<and>
      (sentMessages (step lib s e) k = Some now \<or>
       (\<exists>t. sentMessages s k = Some t \<and> now - t > NO_ECHO_TIMEOUT \<and> sentMessages (step lib s e) k = None)))"
proof (cases e)
  case (BindListening now)
  show ?thesis
  proof (cases "udpReady s = Pending")
    case True
    with BindListening
      fold_message_body_sentMessages [of lib now "awaiting s"
        "perform (Console SocketListening) (s\<lparr>udpReady := Resolved, awaiting := []\<rparr>)" k]
    show ?thesis by (auto simp: on_listening_def perform_def)
  next
    case False
    with BindListening show ?thesis by (simp add: on_listening_def)
  qed
next
  case BindError
  then show ?thesis by (simp add: on_error_def perform_def)
next
  case (Sweep now)
  then show ?thesis by (auto simp: sweep_def split: option.splits)
next
  case (WsOpen ws)
  then show ?thesis by (simp add: websocket_open_def perform_def Let_def)
next
  case (WsMessage ws parsed now)
  then show ?thesis
    by (cases "udpReady s") (auto simp: websocket_message_def message_body_sentMessages [where ws = ws])
next
  case (WsClosing ws)
  then show ?thesis by simp
next
  case (WsClose ws)
  then show ?thesis by (simp add: websocket_close_def perform_def Let_def split: option.splits)
next
  case (Datagram msg rinfo)
  then show ?thesis by (simp add: emit_frame)
qed

lemma entry_survives_step:
  assumes "sentMessages s k = Some t" "lo \<le> t"
    and "case clock e of None \<Rightarrow> True | Some now \<Rightarrow> lo \<le> now \<and> now \<le> lo + NO_ECHO_TIMEOUT"
  shows "\<exists>t'. sentMessages (step lib s e) k = Some t' \<and> lo \<le> t'"
  using step_sentMessages [of lib s e k] assms by (auto split: option.splits)

lemma entry_survives:
  assumes "sentMessages s k = Some t" "lo \<le> t" "clocks_within lo (lo + NO_ECHO_TIMEOUT) evs"
  shows "\<exists>t'. sentMessages (run lib evs s) k = Some t' \<and> lo \<le> t'"
  using assms
proof (induction evs arbitrary: s t)
  case Nil
  then show ?case by (simp add: run_Nil)
next
  case (Cons e evs)
  from Cons.prems have "\<exists>t'. sentMessages (step lib s e) k = Some t' \<and> lo \<le> t'"
    by (intro entry_survives_step [where t = t]) (simp_all add: clocks_within_def)
  then obtain t' where "sentMessages (step lib s e) k = Some t'" "lo \<le> t'" by blast
  moreover from Cons.prems have "clocks_within lo (lo + NO_ECHO_TIMEOUT) evs"
    by (simp add: clocks_within_def)
  ultimately show ?case using Cons.IH by (simp add: run_Cons)
qed

lemma clocks_within_mono:
  "clocks_within lo hi evs \<Longrightarrow> hi \<le> hi' \<Longrightarrow> clocks_within lo hi' evs"
  by (induction evs) (auto simp: clocks_within_def split: option.splits)

text \<open>Without a request for it, a payload does not enter the table.\<close>

lemma step_not_registered:
  assumes "udpReady s = Resolved" "\<not> registers lib P e"
  shows "sentMessages (step lib s e) (msgKey P) = None \<or>
         sentMessages (step lib s e) (msgKey P) = sentMessages s (msgKey P)"
proof (cases e)
  case (WsMessage ws parsed now)
  have "\<not> (\<exists>P'. registers lib P' (WsMessage ws parsed now) \<and> msgKey P = msgKey P')"
    using assms(2) WsMessage by (auto dest: msgKey_inj)
  then have "sentMessages (message_body lib parsed now s) (msgKey P) = sentMessages s (msgKey P)"
    by (simp only: message_body_sentMessages [where ws = ws] if_False)
  with WsMessage assms(1) show ?thesis
    by (simp add: websocket_message_def)
next
  case (Sweep now)
  then show ?thesis by (auto simp: sweep_def split: option.splits)
qed (use assms in \<open>simp_all add: on_listening_def on_error_def websocket_open_def websocket_close_def
        perform_def emit_frame Let_def split: option.splits\<close>)

lemma run_not_registered:
  assumes "udpReady s = Resolved" "list_all (\<lambda>e. \<not> registers lib P e) evs"
  shows "sentMessages (run lib evs s) (msgKey P) = None \<or>
         sentMessages (run lib evs s) (msgKey P) = sentMessages s (msgKey P)"
  using assms
proof (induction evs arbitrary: s)
  case Nil
  then show ?case by (simp add: run_Nil)
next
  case (Cons e evs)
  from Cons.prems have r: "udpReady (step lib s e) = Resolved" by (simp add: step_Resolved)
  from Cons.prems have "list_all (\<lambda>e. \<not> registers lib P e) evs" by simp
  from Cons.IH [OF r this] step_not_registered [of s lib P e] Cons.prems show ?case
    by (auto simp: run_Cons)
qed


lemma msgKey_eq_iff: "msgKey a = msgKey b \<longleftrightarrow> a = b"
  by (auto dest: msgKey_inj)

lemmas eval_defs = run_def startup_def on_listening_def on_error_def perform_def websocket_open_def
  websocket_close_def websocket_message_def message_body_def try_block_def udp_send_def
  udp_send_no_echo_def udpSocket_send_def emit_message_def udpHandler_def sweep_def
  NO_ECHO_TIMEOUT_def client_message_def network_up_def network_down_def loopback_def trunc_def
  Let_def msgKey_eq_iff receivers_def clocks_within_def

section \<open>A request without echo\<close>

lemma step_no_echo:
  assumes "udpReady s = Resolved"
    and "member msg ''type'' = Some (JStr ''udp-send-no-echo'')"
    and "Buffer_from lib (member msg ''data'') = Inr P"
  shows "step lib s (WsMessage ws (Some msg) t0) =
     s\<lparr>sentMessages := (sentMessages s)(msgKey P \<mapsto> t0),
       effects := effects s @
        SentMessagesSet (msgKey P) t0
        # UdpSend P (member msg ''port'') (member msg ''address'')
            (dgram_send lib P (member msg ''port'') (member msg ''address''))
        # after_send (dgram_send lib P (member msg ''port'') (member msg ''address''))\<rparr>"
  using assms by (simp add: websocket_message_def message_body_no_echo)

lemma datagram_suppressed:
  assumes "sentMessages s (msgKey P) = Some t" "t0 \<le> t" "clocks_within t0 (t0 + 100) evs"
  shows "run lib (evs @ [Datagram P rinfo]) s = run lib evs s"
proof -
  from assms have "\<exists>t'. sentMessages (run lib evs s) (msgKey P) = Some t' \<and> t0 \<le> t'"
    by (intro entry_survives [where t = t]) (simp_all add: NO_ECHO_TIMEOUT_def)
  then show ?thesis
    by (auto simp: run_append run_Cons run_Nil emit_suppressed)
qed

lemma datagram_delivered:
  assumes "sentMessages (run lib evs s) (msgKey P) = None"
  shows "ws_sends (effects (run lib (evs @ [Datagram P rinfo]) s)) =
         ws_sends (effects (run lib evs s)) @
         map (\<lambda>ws. (ws, udp_message rinfo P)) (receivers (run lib evs s))"
  using assms
  by (simp add: run_append run_Cons run_Nil emit_delivered ws_sends_append ws_sends_map_WsSend)

lemma swept_then_absent:
  assumes "udpReady s = Resolved" "sentMessages s (msgKey P) = Some t0" "t0 + 100 < now"
    and "list_all (\<lambda>e. \<not> registers lib P e) (evs1 @ evs2)"
  shows "sentMessages (run lib (evs1 @ Sweep now # evs2) s) (msgKey P) = None"
proof -
  let ?a = "run lib evs1 s"
  let ?b = "step lib ?a (Sweep now)"
  from assms have "sentMessages ?a (msgKey P) = None \<or> sentMessages ?a (msgKey P) = Some t0"
    using run_not_registered [of s lib P evs1] by simp
  with assms(3) have b: "sentMessages ?b (msgKey P) = None"
    by (auto simp: sweep_def NO_ECHO_TIMEOUT_def)
  have "udpReady ?b = Resolved"
    by (intro step_Resolved run_Resolved assms(1))
  with assms(4) b show ?thesis
    using run_not_registered [of ?b lib P evs2] by (simp add: run_append run_Cons)
qed

text \<open>
  C1.  A payload \<open>P\<close> is registered by a request without echo at the clock reading
  \<open>t0\<close>.  While every event since has a clock reading within 100 ms of \<open>t0\<close>, a
  datagram with payload \<open>P\<close> reaches no client.  After a sweep that ran later than
  100 ms after \<open>t0\<close> (and no new request for \<open>P\<close>), a datagram with payload \<open>P\<close>
  is pushed to every connection with a listener and an open channel.  A sweep at exactly
  100 ms keeps the entry: the test of the sweep is \<open>now - timestamp > 100\<close>.
\<close>

theorem no_echo_window:
  assumes "udpReady s = Resolved"
    and "member msg ''type'' = Some (JStr ''udp-send-no-echo'')"
    and "Buffer_from lib (member msg ''data'') = Inr P"
  shows "(clocks_within t0 (t0 + 100) evs \<longrightarrow>
            ws_sends (effects (run lib (WsMessage ws (Some msg) t0 # evs @ [Datagram P rinfo]) s)) =
            ws_sends (effects (run lib (WsMessage ws (Some msg) t0 # evs) s))) \<and>
         (t0 + 100 < now \<and> list_all (\<lambda>e. \<not> registers lib P e) (evs1 @ evs2) \<longrightarrow>
            ws_sends (effects (run lib
              (WsMessage ws (Some msg) t0 # evs1 @ Sweep now # evs2 @ [Datagram P rinfo]) s)) =
            ws_sends (effects (run lib (WsMessage ws (Some msg) t0 # evs1 @ Sweep now # evs2) s)) @
            map (\<lambda>c. (c, udp_message rinfo P))
              (receivers (run lib (WsMessage ws (Some msg) t0 # evs1 @ Sweep now # evs2) s)))"
proof (intro conjI impI)
  let ?s1 = "step lib s (WsMessage ws (Some msg) t0)"
  have entry: "sentMessages ?s1 (msgKey P) = Some t0"
    by (subst step_no_echo [OF assms]) simp
  have ready: "udpReady ?s1 = Resolved"
    using assms(1) by (rule step_Resolved)
  {
    assume "clocks_within t0 (t0 + 100) evs"
    with entry have "run lib (evs @ [Datagram P rinfo]) ?s1 = run lib evs ?s1"
      by (intro datagram_suppressed [where t = t0]) simp_all
    then show "ws_sends (effects (run lib (WsMessage ws (Some msg) t0 # evs @ [Datagram P rinfo]) s)) =
            ws_sends (effects (run lib (WsMessage ws (Some msg) t0 # evs) s))"
      by (simp add: run_Cons)
  }
  {
    assume "t0 + 100 < now \<and> list_all (\<lambda>e. \<not> registers lib P e) (evs1 @ evs2)"
    with entry ready have "sentMessages (run lib (evs1 @ Sweep now # evs2) ?s1) (msgKey P) = None"
      by (intro swept_then_absent [where ?t0.0 = t0]) simp_all
    from datagram_delivered [OF this, of rinfo]
    show "ws_sends (effects (run lib
              (WsMessage ws (Some msg) t0 # evs1 @ Sweep now # evs2 @ [Datagram P rinfo]) s)) =
            ws_sends (effects (run lib (WsMessage ws (Some msg) t0 # evs1 @ Sweep now # evs2) s)) @
            map (\<lambda>c. (c, udp_message rinfo P))
              (receivers (run lib (WsMessage ws (Some msg) t0 # evs1 @ Sweep now # evs2) s))"
      by (simp add: run_Cons)
  }
qed

theorem no_echo_window_witness:
  "ws_sends (effects (run network_up
      (WsMessage 1 (Some (client_message ''type'' ''udp-send-no-echo'' [1, 2, 3])) 1000
        # [Sweep 1050, Sweep 1100] @ [Datagram [1, 2, 3] loopback])
      (run network_up [BindListening 0, WsOpen 1, WsOpen 2] startup))) = [] \<and>
   ws_sends (effects (run network_up
      (WsMessage 1 (Some (client_message ''type'' ''udp-send-no-echo'' [1, 2, 3])) 1000
        # [Sweep 1050, Sweep 1100] @ Sweep 1101 # [WsClosing 2] @ [Datagram [1, 2, 3] loopback])
      (run network_up [BindListening 0, WsOpen 1, WsOpen 2] startup))) =
     [(1, udp_message loopback [1, 2, 3])]"
proof -
  let ?s = "run network_up [BindListening 0, WsOpen 1, WsOpen 2] startup"
  let ?msg = "client_message ''type'' ''udp-send-no-echo'' [1, 2, 3]"
  have h1: "udpReady ?s = Resolved"
    by (simp add: eval_defs)
  have h2: "member ?msg ''type'' = Some (JStr ''udp-send-no-echo'')"
    by (simp add: eval_defs)
  have h3: "Buffer_from network_up (member ?msg ''data'') = Inr [1, 2, 3]"
    by (simp add: eval_defs)
  have h4: "clocks_within 1000 (1000 + 100) [Sweep 1050, Sweep 1100]"
    by (simp add: eval_defs)
  have h5: "(1000::int) + 100 < 1101 \<and>
     list_all (\<lambda>e. \<not> registers network_up [1, 2, 3] e) ([Sweep 1050, Sweep 1100] @ [WsClosing 2])"
    by simp
  have before: "ws_sends (effects (run network_up
      (WsMessage 1 (Some ?msg) 1000 # [Sweep 1050, Sweep 1100]) ?s)) = []"
    by (simp add: eval_defs)
  have after: "ws_sends (effects (run network_up
      (WsMessage 1 (Some ?msg) 1000 # [Sweep 1050, Sweep 1100] @ Sweep 1101 # [WsClosing 2]) ?s)) = []"
    "receivers (run network_up
      (WsMessage 1 (Some ?msg) 1000 # [Sweep 1050, Sweep 1100] @ Sweep 1101 # [WsClosing 2]) ?s) = [1]"
    by (simp_all add: eval_defs)
  from no_echo_window [OF h1 h2 h3, of 1000 "[Sweep 1050, Sweep 1100]" 1 loopback 1101
      "[Sweep 1050, Sweep 1100]" "[WsClosing 2]"] h4 h5 before after
  show ?thesis by simp
qed


section \<open>Buffers from arrays\<close>

lemma trunc_of_int: "trunc (of_int n) = n"
  by (simp add: trunc_def)

lemma Buffer_from_integers:
  "Buffer_from lib (Some (JArr (map (\<lambda>n. JNum (Finite (of_int n))) ns))) = Inr (map word_of_int ns)"
  by (simp add: trunc_of_int comp_def)

lemma Buffer_from_spread: "Buffer_from lib (Some (spread P)) = Inr P"
proof -
  have "trunc (of_nat (unat b)) = int (unat b)" for b :: byte
    using trunc_of_int [of "int (unat b)"] by simp
  then have "map (array_entry lib) (map (\<lambda>b. JNum (Finite (of_nat (unat b)))) P) = P"
    by (induction P) simp_all
  then show ?thesis by (simp add: spread_def)
qed

lemma unat_byte_of_int: "unat (word_of_int n :: byte) = nat (n mod 256)"
  by (simp add: unat_eq_nat_uint uint_word_of_int take_bit_eq_mod)

lemma step_plain:
  assumes "udpReady s = Resolved"
    and "member msg ''type'' = Some (JStr ''udp-send'')"
    and "Buffer_from lib (member msg ''data'') = Inr P"
  shows "step lib s (WsMessage ws (Some msg) now) =
     s\<lparr>effects := effects s @
        UdpSend P (member msg ''port'') (member msg ''address'')
          (dgram_send lib P (member msg ''port'') (member msg ''address''))
        # after_send (dgram_send lib P (member msg ''port'') (member msg ''address''))\<rparr>"
  using assms by (simp add: websocket_message_def message_body_plain)

text \<open>
  C4.  A request without echo writes the entry of its payload into the table and then
  calls \<^verbatim>\<open>udpSocket.send\<close>: in the log of the handler the registration comes first, the
  send second, and what the outcome of the send brings last.  A datagram with the payload
  that arrives right after the handler finds the entry and is pushed to no client.
\<close>

theorem registered_before_send:
  assumes "udpReady s = Resolved"
    and "member msg ''type'' = Some (JStr ''udp-send-no-echo'')"
    and "Buffer_from lib (member msg ''data'') = Inr P"
  shows "effects (step lib s (WsMessage ws (Some msg) now)) =
           effects s @
           SentMessagesSet (msgKey P) now
           # UdpSend P (member msg ''port'') (member msg ''address'')
               (dgram_send lib P (member msg ''port'') (member msg ''address''))
           # after_send (dgram_send lib P (member msg ''port'') (member msg ''address'')) \<and>
         sentMessages (step lib s (WsMessage ws (Some msg) now)) (msgKey P) = Some now \<and>
         step lib (step lib s (WsMessage ws (Some msg) now)) (Datagram P rinfo) =
           step lib s (WsMessage ws (Some msg) now)"
proof -
  let ?s1 = "step lib s (WsMessage ws (Some msg) now)"
  have eq: "?s1 = s\<lparr>sentMessages := (sentMessages s)(msgKey P \<mapsto> now),
       effects := effects s @
        SentMessagesSet (msgKey P) now
        # UdpSend P (member msg ''port'') (member msg ''address'')
            (dgram_send lib P (member msg ''port'') (member msg ''address''))
        # after_send (dgram_send lib P (member msg ''port'') (member msg ''address''))\<rparr>"
    by (rule step_no_echo [OF assms])
  have entry: "sentMessages ?s1 (msgKey P) = Some now"
    by (subst eq) simp
  have "emit_message P rinfo ?s1 = ?s1"
    using entry by (rule emit_suppressed)
  then have "step lib ?s1 (Datagram P rinfo) = ?s1"
    by (simp only: step.simps)
  moreover have "effects ?s1 = effects s @
           SentMessagesSet (msgKey P) now
           # UdpSend P (member msg ''port'') (member msg ''address'')
               (dgram_send lib P (member msg ''port'') (member msg ''address''))
           # after_send (dgram_send lib P (member msg ''port'') (member msg ''address''))"
    by (subst eq) simp
  ultimately show ?thesis using entry by blast
qed

theorem registered_before_send_witness:
  "effects (step network_up (run network_up [BindListening 0, WsOpen 1] startup)
      (WsMessage 1 (Some (client_message ''type'' ''udp-send-no-echo'' [1, 2, 3])) 1000)) =
     [Console SocketListening, Console (BrowserConnected 1),
      SentMessagesSet (msgKey [1, 2, 3]) 1000,
      UdpSend [1, 2, 3] (Some (JNum (Finite 6454))) (Some (JStr ''127.0.0.1'')) CallbackOk]"
proof -
  let ?s = "run network_up [BindListening 0, WsOpen 1] startup"
  let ?msg = "client_message ''type'' ''udp-send-no-echo'' [1, 2, 3]"
  have h1: "udpReady ?s = Resolved"
    by (simp add: eval_defs)
  have h2: "member ?msg ''type'' = Some (JStr ''udp-send-no-echo'')"
    by (simp add: eval_defs)
  have h3: "Buffer_from network_up (member ?msg ''data'') = Inr [1, 2, 3]"
    by (simp add: eval_defs)
  have e: "effects ?s = [Console SocketListening, Console (BrowserConnected 1)]"
    by (simp add: eval_defs)
  have m: "member ?msg ''port'' = Some (JNum (Finite 6454))"
    "member ?msg ''address'' = Some (JStr ''127.0.0.1'')"
    by (simp_all add: eval_defs)
  have d: "dgram_send network_up buf p a = CallbackOk" for buf p a
    by (simp add: network_up_def)
  from registered_before_send [OF h1 h2 h3, of 1 1000 loopback]
  show ?thesis by (simp only: e m d after_send.simps append.simps)
qed

text \<open>
  C9.  When the send of a request without echo fails (the call throws, or the callback
  gets an error), the entry written before the call stays: no datagram went out, and
  while every event has a clock reading within 100 ms of the registration a datagram
  with the payload is still pushed to no client.
\<close>

theorem failed_send_keeps_entry:
  assumes "udpReady s = Resolved"
    and "member msg ''type'' = Some (JStr ''udp-send-no-echo'')"
    and "Buffer_from lib (member msg ''data'') = Inr P"
    and "dgram_send lib P (member msg ''port'') (member msg ''address'') \<noteq> CallbackOk"
  shows "sentMessages (step lib s (WsMessage ws (Some msg) t0)) (msgKey P) = Some t0 \<and>
         (\<exists>outcome. outcome \<noteq> CallbackOk \<and>
            udp_sends (effects (step lib s (WsMessage ws (Some msg) t0))) =
            udp_sends (effects s) @ [(P, member msg ''port'', member msg ''address'', outcome)]) \<and>
         (clocks_within t0 (t0 + 100) evs \<longrightarrow>
            ws_sends (effects (run lib (WsMessage ws (Some msg) t0 # evs @ [Datagram P rinfo]) s)) =
            ws_sends (effects (run lib (WsMessage ws (Some msg) t0 # evs) s)))"
proof (intro conjI impI)
  let ?s1 = "step lib s (WsMessage ws (Some msg) t0)"
  note eq = step_no_echo [OF assms(1-3), of ws t0]
  show entry: "sentMessages ?s1 (msgKey P) = Some t0"
    by (subst eq) simp
  have "udp_sends (effects ?s1) = udp_sends (effects s) @
      [(P, member msg ''port'', member msg ''address'',
        dgram_send lib P (member msg ''port'') (member msg ''address''))]"
    by (subst eq) (simp add: udp_sends_append udp_sends_after_send)
  with assms(4) show "\<exists>outcome. outcome \<noteq> CallbackOk \<and>
            udp_sends (effects ?s1) =
            udp_sends (effects s) @ [(P, member msg ''port'', member msg ''address'', outcome)]"
    by blast
  assume "clocks_within t0 (t0 + 100) evs"
  with entry have "run lib (evs @ [Datagram P rinfo]) ?s1 = run lib evs ?s1"
    by (intro datagram_suppressed [where t = t0]) simp_all
  then show "ws_sends (effects (run lib (WsMessage ws (Some msg) t0 # evs @ [Datagram P rinfo]) s)) =
            ws_sends (effects (run lib (WsMessage ws (Some msg) t0 # evs) s))"
    by (simp add: run_Cons)
qed

theorem failed_send_keeps_entry_witness:
  "sentMessages (step network_down (run network_down [BindListening 0, WsOpen 1] startup)
      (WsMessage 1 (Some (client_message ''type'' ''udp-send-no-echo'' [1, 2, 3])) 1000))
      (msgKey [1, 2, 3]) = Some 1000 \<and>
   ws_sends (effects (run network_down
      (WsMessage 1 (Some (client_message ''type'' ''udp-send-no-echo'' [1, 2, 3])) 1000
        # [Sweep 1050, Sweep 1100] @ [Datagram [1, 2, 3] loopback])
      (run network_down [BindListening 0, WsOpen 1] startup))) = []"
proof -
  let ?s = "run network_down [BindListening 0, WsOpen 1] startup"
  let ?msg = "client_message ''type'' ''udp-send-no-echo'' [1, 2, 3]"
  have h1: "udpReady ?s = Resolved"
    by (simp add: eval_defs)
  have h2: "member ?msg ''type'' = Some (JStr ''udp-send-no-echo'')"
    by (simp add: eval_defs)
  have h3: "Buffer_from network_down (member ?msg ''data'') = Inr [1, 2, 3]"
    by (simp add: eval_defs)
  have h4: "dgram_send network_down [1, 2, 3] (member ?msg ''port'') (member ?msg ''address'') \<noteq> CallbackOk"
    by (simp add: network_down_def)
  have h5: "clocks_within 1000 (1000 + 100) [Sweep 1050, Sweep 1100]"
    by (simp add: eval_defs)
  have before: "ws_sends (effects (run network_down
      (WsMessage 1 (Some ?msg) 1000 # [Sweep 1050, Sweep 1100]) ?s)) = []"
    by (simp add: eval_defs)
  from failed_send_keeps_entry [OF h1 h2 h3 h4, of 1 1000 "[Sweep 1050, Sweep 1100]" loopback]
    h5 before
  show ?thesis by simp
qed

text \<open>
  C10.  A request of either kind whose \<^verbatim>\<open>data\<close> is an array of integers is not refused
  for an entry outside 0..255: \<^verbatim>\<open>udpSocket.send\<close> is called with one byte per entry, the
  entry reduced modulo 256.
\<close>

theorem entries_reduced_mod_256:
  assumes "udpReady s = Resolved"
    and "member msg ''type'' = Some (JStr ''udp-send'') \<or>
         member msg ''type'' = Some (JStr ''udp-send-no-echo'')"
    and "member msg ''data'' = Some (JArr (map (\<lambda>n. JNum (Finite (of_int n))) ns))"
  shows "udp_sends (effects (step lib s (WsMessage ws (Some msg) now))) =
           udp_sends (effects s) @
           [(map word_of_int ns, member msg ''port'', member msg ''address'',
             dgram_send lib (map word_of_int ns) (member msg ''port'') (member msg ''address''))] \<and>
         map unat (map word_of_int ns :: byte list) = map (\<lambda>n. nat (n mod 256)) ns"
proof -
  have buf: "Buffer_from lib (member msg ''data'') = Inr (map word_of_int ns)"
    by (simp only: assms(3) Buffer_from_integers)
  have "udp_sends (effects (step lib s (WsMessage ws (Some msg) now))) =
           udp_sends (effects s) @
           [(map word_of_int ns, member msg ''port'', member msg ''address'',
             dgram_send lib (map word_of_int ns) (member msg ''port'') (member msg ''address''))]"
  proof (rule disjE [OF assms(2)])
    assume ty: "member msg ''type'' = Some (JStr ''udp-send'')"
    show ?thesis
      by (subst step_plain [OF assms(1) ty buf]) (simp add: udp_sends_append udp_sends_after_send)
  next
    assume ty: "member msg ''type'' = Some (JStr ''udp-send-no-echo'')"
    show ?thesis
      by (subst step_no_echo [OF assms(1) ty buf]) (simp add: udp_sends_append udp_sends_after_send)
  qed
  moreover have "map unat (map word_of_int ns :: byte list) = map (\<lambda>n. nat (n mod 256)) ns"
    by (simp add: unat_byte_of_int)
  ultimately show ?thesis by blast
qed

theorem entries_reduced_mod_256_witness:
  "udp_sends (effects (step network_up (run network_up [BindListening 0] startup)
      (WsMessage 1 (Some (client_message ''type'' ''udp-send'' [256, - 1, 300])) 5))) =
     [([0, 255, 44], Some (JNum (Finite 6454)), Some (JStr ''127.0.0.1''), CallbackOk)]"
proof -
  let ?s = "run network_up [BindListening 0] startup"
  let ?msg = "client_message ''type'' ''udp-send'' [256, - 1, 300]"
  have h1: "udpReady ?s = Resolved"
    by (simp add: eval_defs)
  have h2: "member ?msg ''type'' = Some (JStr ''udp-send'') \<or>
         member ?msg ''type'' = Some (JStr ''udp-send-no-echo'')"
    by (simp add: eval_defs)
  have h3: "member ?msg ''data'' = Some (JArr (map (\<lambda>n. JNum (Finite (of_int n))) [256, - 1, 300]))"
    by (simp add: client_message_def)
  have e: "udp_sends (effects ?s) = []"
    by (simp add: eval_defs)
  have m: "member ?msg ''port'' = Some (JNum (Finite 6454))"
    "member ?msg ''address'' = Some (JStr ''127.0.0.1'')"
    by (simp_all add: eval_defs)
  have d: "dgram_send network_up buf p a = CallbackOk" for buf p a
    by (simp add: network_up_def)
  have w: "map word_of_int [256, - 1, 300] = [0, 255, 44 :: byte]"
    by simp
  from entries_reduced_mod_256 [OF h1 h2 h3, of network_up 1 5]
  show ?thesis by (simp only: e m d w append.simps)
qed


lemma member_udp_message:
  "member (udp_message rinfo msg) ''type'' = Some (JStr ''udp-message'')"
  "member (udp_message rinfo msg) ''address'' = Some (JStr (address rinfo))"
  "member (udp_message rinfo msg) ''port'' = Some (JNum (Finite (of_nat (port rinfo))))"
  "member (udp_message rinfo msg) ''data'' = Some (spread msg)"
  by (simp_all add: udp_message_def)

text \<open>
  C7.  A plain \<^verbatim>\<open>udp-send\<close> request leaves the table as it was.  When its payload
  \<open>P\<close> has no entry, and no request without echo for \<open>P\<close> follows, a datagram with
  payload \<open>P\<close> is pushed to every connection with a listener and an open channel, as
  a \<^verbatim>\<open>udp-message\<close> with the source address, the source port and the bytes of the
  datagram.
\<close>

theorem plain_send_not_suppressed:
  assumes "udpReady s = Resolved"
    and "member msg ''type'' = Some (JStr ''udp-send'')"
    and "Buffer_from lib (member msg ''data'') = Inr P"
  shows "sentMessages (step lib s (WsMessage ws (Some msg) now)) = sentMessages s \<and>
         (sentMessages s (msgKey P) = None \<and> list_all (\<lambda>e. \<not> registers lib P e) evs \<longrightarrow>
            ws_sends (effects (run lib (WsMessage ws (Some msg) now # evs @ [Datagram P rinfo]) s)) =
            ws_sends (effects (run lib (WsMessage ws (Some msg) now # evs) s)) @
            map (\<lambda>c. (c, udp_message rinfo P))
              (receivers (run lib (WsMessage ws (Some msg) now # evs) s))) \<and>
         member (udp_message rinfo P) ''address'' = Some (JStr (address rinfo)) \<and>
         member (udp_message rinfo P) ''port'' = Some (JNum (Finite (of_nat (port rinfo)))) \<and>
         member (udp_message rinfo P) ''data'' = Some (spread P) \<and>
         Buffer_from lib (Some (spread P)) = Inr P"
proof (intro conjI impI)
  let ?s1 = "step lib s (WsMessage ws (Some msg) now)"
  note eq = step_plain [OF assms, of ws now]
  show same: "sentMessages ?s1 = sentMessages s"
    by (subst eq) simp
  have ready: "udpReady ?s1 = Resolved"
    using assms(1) by (rule step_Resolved)
  {
    assume "sentMessages s (msgKey P) = None \<and> list_all (\<lambda>e. \<not> registers lib P e) evs"
    with same ready have "sentMessages (run lib evs ?s1) (msgKey P) = None"
      using run_not_registered [of ?s1 lib P evs] by auto
    from datagram_delivered [OF this, of rinfo]
    show "ws_sends (effects (run lib (WsMessage ws (Some msg) now # evs @ [Datagram P rinfo]) s)) =
            ws_sends (effects (run lib (WsMessage ws (Some msg) now # evs) s)) @
            map (\<lambda>c. (c, udp_message rinfo P))
              (receivers (run lib (WsMessage ws (Some msg) now # evs) s))"
      by (simp add: run_Cons)
  }
qed (simp_all only: member_udp_message Buffer_from_spread)

theorem plain_send_not_suppressed_witness:
  "ws_sends (effects (run network_up
      (WsMessage 1 (Some (client_message ''type'' ''udp-send'' [1, 2, 3])) 1000
        # [Sweep 1050] @ [Datagram [1, 2, 3] loopback])
      (run network_up [BindListening 0, WsOpen 1, WsOpen 2] startup))) =
     [(1, udp_message loopback [1, 2, 3]), (2, udp_message loopback [1, 2, 3])]"
proof -
  let ?s = "run network_up [BindListening 0, WsOpen 1, WsOpen 2] startup"
  let ?msg = "client_message ''type'' ''udp-send'' [1, 2, 3]"
  have h1: "udpReady ?s = Resolved"
    by (simp add: eval_defs)
  have h2: "member ?msg ''type'' = Some (JStr ''udp-send'')"
    by (simp add: eval_defs)
  have h3: "Buffer_from network_up (member ?msg ''data'') = Inr [1, 2, 3]"
    by (simp add: eval_defs)
  have h4: "sentMessages ?s (msgKey [1, 2, 3]) = None \<and>
      list_all (\<lambda>e. \<not> registers network_up [1, 2, 3] e) [Sweep 1050]"
    by (simp add: eval_defs)
  have before: "ws_sends (effects (run network_up (WsMessage 1 (Some ?msg) 1000 # [Sweep 1050]) ?s)) = []"
    "receivers (run network_up (WsMessage 1 (Some ?msg) 1000 # [Sweep 1050]) ?s) = [1, 2]"
    by (simp_all add: eval_defs)
  from plain_send_not_suppressed [OF h1 h2 h3, of 1 1000 "[Sweep 1050]" loopback] h4 before
  show ?thesis by simp
qed

text \<open>
  C5.  The key is the payload and nothing else.  Two payloads have the same key exactly
  when they are the same bytes.  For two datagrams with the same payload, whatever their
  source addresses and ports, each listener takes the same decision, and the datagram is
  pushed to the same connections.  Two requests without echo with the same \<^verbatim>\<open>data\<close>
  leave the same table, whatever their \<^verbatim>\<open>address\<close> and \<^verbatim>\<open>port\<close>.
\<close>

theorem key_is_payload_only:
  "(msgKey a = msgKey b \<longleftrightarrow> a = b) \<and>
   (udpHandler ws P rinfo s = s \<longleftrightarrow> udpHandler ws P rinfo' s = s) \<and>
   (ws_sends (effects (emit_message P rinfo s)) = ws_sends (effects s) \<longleftrightarrow>
    ws_sends (effects (emit_message P rinfo' s)) = ws_sends (effects s)) \<and>
   map fst (ws_sends (effects (emit_message P rinfo s))) =
   map fst (ws_sends (effects (emit_message P rinfo' s))) \<and>
   (sentMessages s (msgKey P) \<noteq> None \<longrightarrow>
      emit_message P rinfo s = s \<and> emit_message P rinfo' s = s) \<and>
   (member msg ''type'' = Some (JStr ''udp-send-no-echo'') \<and>
    member msg' ''type'' = Some (JStr ''udp-send-no-echo'') \<and>
    member msg ''data'' = member msg' ''data'' \<longrightarrow>
      sentMessages (message_body lib (Some msg) now s) =
      sentMessages (message_body lib (Some msg') now s))"
proof (intro conjI impI)
  show "msgKey a = msgKey b \<longleftrightarrow> a = b"
    by (rule msgKey_eq_iff)
  show "udpHandler ws P rinfo s = s \<longleftrightarrow> udpHandler ws P rinfo' s = s"
    by (cases "effects s") (auto simp: udpHandler_def perform_def Let_def dest: arg_cong [where f = effects])
  show "ws_sends (effects (emit_message P rinfo s)) = ws_sends (effects s) \<longleftrightarrow>
    ws_sends (effects (emit_message P rinfo' s)) = ws_sends (effects s)"
    by (cases "sentMessages s (msgKey P)")
       (simp_all add: emit_suppressed emit_delivered ws_sends_append ws_sends_map_WsSend)
  show "map fst (ws_sends (effects (emit_message P rinfo s))) =
    map fst (ws_sends (effects (emit_message P rinfo' s)))"
    by (cases "sentMessages s (msgKey P)")
       (simp_all add: emit_suppressed emit_delivered ws_sends_append ws_sends_map_WsSend comp_def)
  {
    assume "sentMessages s (msgKey P) \<noteq> None"
    then obtain t where "sentMessages s (msgKey P) = Some t" by blast
    then show "emit_message P rinfo s = s" "emit_message P rinfo' s = s"
      by (rule emit_suppressed)+
  }
  {
    assume h: "member msg ''type'' = Some (JStr ''udp-send-no-echo'') \<and>
      member msg' ''type'' = Some (JStr ''udp-send-no-echo'') \<and>
      member msg ''data'' = member msg' ''data''"
    show "sentMessages (message_body lib (Some msg) now s) =
      sentMessages (message_body lib (Some msg') now s)"
    proof (cases "Buffer_from lib (member msg ''data'')")
      case (Inl e)
      with h show ?thesis by (simp add: message_body_no_echo_bad perform_def)
    next
      case (Inr buf)
      with h show ?thesis by (simp add: message_body_no_echo)
    qed
  }
qed



theorem key_is_payload_only_witness:
  "emit_message [1, 2, 3] loopback
     (run network_up [BindListening 0, WsOpen 1,
        WsMessage 1 (Some (client_message ''type'' ''udp-send-no-echo'' [1, 2, 3])) 1000] startup) =
     run network_up [BindListening 0, WsOpen 1,
        WsMessage 1 (Some (client_message ''type'' ''udp-send-no-echo'' [1, 2, 3])) 1000] startup \<and>
   emit_message [1, 2, 3] \<lparr>address = ''10.0.0.7'', port = 40000\<rparr>
     (run network_up [BindListening 0, WsOpen 1,
        WsMessage 1 (Some (client_message ''type'' ''udp-send-no-echo'' [1, 2, 3])) 1000] startup) =
     run network_up [BindListening 0, WsOpen 1,
        WsMessage 1 (Some (client_message ''type'' ''udp-send-no-echo'' [1, 2, 3])) 1000] startup \<and>
   sentMessages (message_body network_up
      (Some (client_message ''type'' ''udp-send-no-echo'' [1, 2, 3])) 7
      (run network_up [BindListening 0, WsOpen 1,
        WsMessage 1 (Some (client_message ''type'' ''udp-send-no-echo'' [1, 2, 3])) 1000] startup)) =
   sentMessages (message_body network_up
      (Some (JObj [(''type'', JStr ''udp-send-no-echo''), (''address'', JStr ''255.255.255.255''),
         (''port'', JNum (Finite 9000)),
         (''data'', JArr [JNum (Finite 1), JNum (Finite 2), JNum (Finite 3)])])) 7
      (run network_up [BindListening 0, WsOpen 1,
        WsMessage 1 (Some (client_message ''type'' ''udp-send-no-echo'' [1, 2, 3])) 1000] startup))"
proof -
  let ?s = "run network_up [BindListening 0, WsOpen 1,
        WsMessage 1 (Some (client_message ''type'' ''udp-send-no-echo'' [1, 2, 3])) 1000] startup"
  let ?msg = "client_message ''type'' ''udp-send-no-echo'' [1, 2, 3]"
  let ?msg' = "JObj [(''type'', JStr ''udp-send-no-echo''), (''address'', JStr ''255.255.255.255''),
         (''port'', JNum (Finite 9000)),
         (''data'', JArr [JNum (Finite 1), JNum (Finite 2), JNum (Finite 3)])]"
  have h1: "sentMessages ?s (msgKey [1, 2, 3]) \<noteq> None"
    by (simp add: eval_defs)
  have h2: "member ?msg ''type'' = Some (JStr ''udp-send-no-echo'') \<and>
    member ?msg' ''type'' = Some (JStr ''udp-send-no-echo'') \<and>
    member ?msg ''data'' = member ?msg' ''data''"
    by (simp add: client_message_def)
  note k = key_is_payload_only [where a = "[1, 2, 3]" and b = "[1, 2, 3]" and ws = 1
      and P = "[1, 2, 3]" and rinfo = loopback and s = ?s
      and rinfo' = "\<lparr>address = ''10.0.0.7'', port = 40000\<rparr>" and msg = ?msg and msg' = ?msg'
      and lib = network_up and now = 7]
  note k4 = k [THEN conjunct2, THEN conjunct2, THEN conjunct2, THEN conjunct2]
  from k4 [THEN conjunct1] h1
  have "emit_message [1, 2, 3] loopback ?s = ?s \<and>
      emit_message [1, 2, 3] \<lparr>address = ''10.0.0.7'', port = 40000\<rparr> ?s = ?s"
    by (rule mp)
  moreover from k4 [THEN conjunct2] h2
  have "sentMessages (message_body network_up (Some ?msg) 7 ?s) =
      sentMessages (message_body network_up (Some ?msg') 7 ?s)"
    by (rule mp)
  ultimately show ?thesis
    by (intro conjI) (erule conjunct1, erule conjunct2, assumption)
qed

section \<open>Messages that are not requests\<close>

lemma not_a_request:
  assumes "parsed = None \<or>
     (parsed = Some msg \<and> member msg ''type'' \<noteq> Some (JStr ''udp-send'') \<and>
      member msg ''type'' \<noteq> Some (JStr ''udp-send-no-echo''))"
  shows "message_body lib parsed now s =
     (if parsed = None then perform (Console (InvalidWSMessage SyntaxError)) s
      else if parsed = Some JNull then perform (Console (InvalidWSMessage TypeError)) s
      else s)"
proof (cases "parsed = None")
  case True
  then show ?thesis by (simp add: message_body_syntax)
next
  case False
  with assms have p: "parsed = Some msg"
    and ty: "member msg ''type'' \<noteq> Some (JStr ''udp-send'')"
      "member msg ''type'' \<noteq> Some (JStr ''udp-send-no-echo'')"
    by auto
  show ?thesis
  proof (cases "msg = JNull")
    case True
    with p show ?thesis by (simp add: message_body_null)
  next
    case False
    with p ty show ?thesis by (simp add: message_body_other)
  qed
qed

text \<open>
  C2, as the code has it.  A message that is not valid JSON, or whose \<^verbatim>\<open>type\<close> is
  neither \<^verbatim>\<open>udp-send\<close> nor \<^verbatim>\<open>udp-send-no-echo\<close> (\<^verbatim>\<open>null\<close> and values without a
  \<^verbatim>\<open>type\<close> among them), calls no \<^verbatim>\<open>udpSocket.send\<close>, pushes nothing to a client,
  registers nothing, and leaves the listeners and the state of every connection as they
  were.  Once the socket is ready, text that is not JSON adds the line of an invalid
  message to the console and changes nothing else.  The bridge checks no field of a
  request of the two kinds.
\<close>

theorem malformed_message_ignored:
  assumes "parsed = None \<or>
     (parsed = Some msg \<and> member msg ''type'' \<noteq> Some (JStr ''udp-send'') \<and>
      member msg ''type'' \<noteq> Some (JStr ''udp-send-no-echo''))"
  shows "udp_sends (effects (step lib s (WsMessage ws parsed now))) = udp_sends (effects s) \<and>
         ws_sends (effects (step lib s (WsMessage ws parsed now))) = ws_sends (effects s) \<and>
         sentMessages (step lib s (WsMessage ws parsed now)) = sentMessages s \<and>
         listeners (step lib s (WsMessage ws parsed now)) = listeners s \<and>
         readyState (step lib s (WsMessage ws parsed now)) = readyState s \<and>
         udpReady (step lib s (WsMessage ws parsed now)) = udpReady s \<and>
         (udpReady s = Resolved \<and> parsed = None \<longrightarrow>
            step lib s (WsMessage ws parsed now) =
            perform (Console (InvalidWSMessage SyntaxError)) s) \<and>
         udp_sends (effects (message_body lib parsed now s)) = udp_sends (effects s) \<and>
         sentMessages (message_body lib parsed now s) = sentMessages s"
proof -
  note body = not_a_request [OF assms, of lib now s]
  have step: "step lib s (WsMessage ws parsed now) =
     (case udpReady s of
        Pending \<Rightarrow> s\<lparr>awaiting := awaiting s @ [parsed]\<rparr>
      | Rejected \<Rightarrow> s
      | Resolved \<Rightarrow> message_body lib parsed now s)"
    by (cases "udpReady s") (simp_all add: websocket_message_def)
  show ?thesis
    unfolding step body
    by (cases "udpReady s") (simp_all add: perform_def udp_sends_append ws_sends_append)
qed

theorem malformed_message_ignored_witness:
  "effects (step network_up (run network_up [BindListening 0, WsOpen 1] startup)
      (WsMessage 1 None 10)) =
     [Console SocketListening, Console (BrowserConnected 1),
      Console (InvalidWSMessage SyntaxError)] \<and>
   udp_sends (effects (step network_up (run network_up [BindListening 0, WsOpen 1] startup)
      (WsMessage 1 (Some (client_message ''kind'' ''unknown'' [])) 10))) = []"
proof -
  let ?s = "run network_up [BindListening 0, WsOpen 1] startup"
  let ?msg = "client_message ''kind'' ''unknown'' []"
  have h1: "None = None \<or>
     ((None :: json option) = Some ?msg \<and> member ?msg ''type'' \<noteq> Some (JStr ''udp-send'') \<and>
      member ?msg ''type'' \<noteq> Some (JStr ''udp-send-no-echo''))"
    by simp
  have h2: "Some ?msg = None \<or>
     (Some ?msg = Some ?msg \<and> member ?msg ''type'' \<noteq> Some (JStr ''udp-send'') \<and>
      member ?msg ''type'' \<noteq> Some (JStr ''udp-send-no-echo''))"
    by (simp add: client_message_def)
  have r: "udpReady ?s = Resolved"
    by (simp add: eval_defs)
  have e: "effects ?s = [Console SocketListening, Console (BrowserConnected 1)]"
    "udp_sends (effects ?s) = []"
    by (simp_all add: eval_defs)
  from malformed_message_ignored [OF h1, where lib = network_up and s = ?s and ws = 1 and now = 10]
    malformed_message_ignored [OF h2, where lib = network_up and s = ?s and ws = 1 and now = 10] r e
  show ?thesis by (simp add: perform_def)
qed

text \<open>
  The claim of C2 about fields fails: a \<^verbatim>\<open>udp-send\<close> whose \<^verbatim>\<open>data\<close> is \<^verbatim>\<open>[256]\<close> is
  not logged as invalid, and a datagram with the byte 0 goes out.
\<close>

theorem unvalidated_data_counterexample:
  "effects (run network_up
      [BindListening 0, WsMessage 1 (Some (client_message ''type'' ''udp-send'' [256])) 5] startup) =
     [Console SocketListening,
      UdpSend [0] (Some (JNum (Finite 6454))) (Some (JStr ''127.0.0.1'')) CallbackOk]"
  by (simp add: eval_defs)


text \<open>
  C3, as the code has it.  The discriminator the bridge reads is \<^verbatim>\<open>type\<close>.  A message
  whose \<^verbatim>\<open>type\<close> is \<^verbatim>\<open>udp-send-no-echo\<close>, with an address, a port and the bytes of
  a payload \<open>P\<close> as \<^verbatim>\<open>data\<close>, registers \<open>P\<close> and calls \<^verbatim>\<open>udpSocket.send\<close> with
  \<open>P\<close>, the port and the address.  While every event since has a clock reading within
  50 ms of the registration, a datagram with payload \<open>P\<close> is pushed to no client; a
  datagram arriving with it whose payload \<open>Q\<close> differs from \<open>P\<close>, has no entry and is
  not requested without echo, is pushed to every connection with a listener and an open
  channel.
\<close>

theorem type_no_echo_request:
  assumes "udpReady s = Resolved"
    and "member msg ''type'' = Some (JStr ''udp-send-no-echo'')"
    and "member msg ''address'' = Some (JStr a)"
    and "member msg ''port'' = Some (JNum (Finite (of_nat p)))"
    and "member msg ''data'' = Some (spread P)"
  shows "sentMessages (step lib s (WsMessage ws (Some msg) t0)) (msgKey P) = Some t0 \<and>
         udp_sends (effects (step lib s (WsMessage ws (Some msg) t0))) =
           udp_sends (effects s) @
           [(P, Some (JNum (Finite (of_nat p))), Some (JStr a),
             dgram_send lib P (Some (JNum (Finite (of_nat p)))) (Some (JStr a)))] \<and>
         (clocks_within t0 (t0 + 50) evs \<longrightarrow>
            ws_sends (effects (run lib (WsMessage ws (Some msg) t0 # evs @ [Datagram P rinfo]) s)) =
            ws_sends (effects (run lib (WsMessage ws (Some msg) t0 # evs) s))) \<and>
         (clocks_within t0 (t0 + 50) evs \<and> Q \<noteq> P \<and> sentMessages s (msgKey Q) = None \<and>
          list_all (\<lambda>e. \<not> registers lib Q e) evs \<longrightarrow>
            ws_sends (effects (run lib
              (WsMessage ws (Some msg) t0 # evs @ [Datagram P rinfo, Datagram Q rinfo']) s)) =
            ws_sends (effects (run lib (WsMessage ws (Some msg) t0 # evs) s)) @
            map (\<lambda>c. (c, udp_message rinfo' Q))
              (receivers (run lib (WsMessage ws (Some msg) t0 # evs) s)))"
proof (intro conjI impI)
  let ?s1 = "step lib s (WsMessage ws (Some msg) t0)"
  have buf: "Buffer_from lib (member msg ''data'') = Inr P"
    by (simp only: assms(5) Buffer_from_spread)
  note eq = step_no_echo [OF assms(1,2) buf, of ws t0]
  show entry: "sentMessages ?s1 (msgKey P) = Some t0"
    by (subst eq) simp
  show "udp_sends (effects ?s1) =
           udp_sends (effects s) @
           [(P, Some (JNum (Finite (of_nat p))), Some (JStr a),
             dgram_send lib P (Some (JNum (Finite (of_nat p)))) (Some (JStr a)))]"
    by (subst eq) (simp add: assms(3,4) udp_sends_append udp_sends_after_send)
  have ready: "udpReady ?s1 = Resolved"
    using assms(1) by (rule step_Resolved)
  have dropped: "run lib (evs @ [Datagram P rinfo]) ?s1 = run lib evs ?s1"
    if "clocks_within t0 (t0 + 50) evs"
  proof -
    from that have "clocks_within t0 (t0 + 100) evs"
      by (rule clocks_within_mono) simp
    with entry show ?thesis
      by (intro datagram_suppressed [where t = t0]) simp_all
  qed
  {
    assume "clocks_within t0 (t0 + 50) evs"
    from dropped [OF this]
    show "ws_sends (effects (run lib (WsMessage ws (Some msg) t0 # evs @ [Datagram P rinfo]) s)) =
            ws_sends (effects (run lib (WsMessage ws (Some msg) t0 # evs) s))"
      by (simp add: run_Cons)
  }
  {
    assume h: "clocks_within t0 (t0 + 50) evs \<and> Q \<noteq> P \<and> sentMessages s (msgKey Q) = None \<and>
          list_all (\<lambda>e. \<not> registers lib Q e) evs"
    then have "msgKey Q \<noteq> msgKey P"
      by (simp add: msgKey_eq_iff)
    with h have "sentMessages ?s1 (msgKey Q) = None"
      by (subst eq) simp
    with h ready have "sentMessages (run lib evs ?s1) (msgKey Q) = None"
      using run_not_registered [of ?s1 lib Q evs] by auto
    from datagram_delivered [OF this, of rinfo']
    have "ws_sends (effects (run lib (evs @ [Datagram Q rinfo']) ?s1)) =
         ws_sends (effects (run lib evs ?s1)) @
         map (\<lambda>c. (c, udp_message rinfo' Q)) (receivers (run lib evs ?s1))" .
    moreover have "run lib (evs @ [Datagram P rinfo, Datagram Q rinfo']) ?s1 =
        run lib (evs @ [Datagram Q rinfo']) ?s1"
      using dropped h by (simp add: run_append run_Cons run_Nil)
    ultimately
    show "ws_sends (effects (run lib
              (WsMessage ws (Some msg) t0 # evs @ [Datagram P rinfo, Datagram Q rinfo']) s)) =
            ws_sends (effects (run lib (WsMessage ws (Some msg) t0 # evs) s)) @
            map (\<lambda>c. (c, udp_message rinfo' Q))
              (receivers (run lib (WsMessage ws (Some msg) t0 # evs) s))"
      by (simp add: run_Cons)
  }
qed

theorem type_no_echo_request_witness:
  "ws_sends (effects (run network_up
      (WsMessage 1 (Some (client_message ''type'' ''udp-send-no-echo'' [1, 2, 3])) 1000
        # [Sweep 1040] @ [Datagram [1, 2, 3] loopback, Datagram [9, 9, 9] loopback])
      (run network_up [BindListening 0, WsOpen 1, WsOpen 2] startup))) =
     [(1, udp_message loopback [9, 9, 9]), (2, udp_message loopback [9, 9, 9])]"
proof -
  let ?s = "run network_up [BindListening 0, WsOpen 1, WsOpen 2] startup"
  let ?msg = "client_message ''type'' ''udp-send-no-echo'' [1, 2, 3]"
  have h1: "udpReady ?s = Resolved"
    by (simp add: eval_defs)
  have h2: "member ?msg ''type'' = Some (JStr ''udp-send-no-echo'')"
    by (simp add: eval_defs)
  have h3: "member ?msg ''address'' = Some (JStr ''127.0.0.1'')"
    by (simp add: eval_defs)
  have h4: "member ?msg ''port'' = Some (JNum (Finite (of_nat 6454)))"
    by (simp add: eval_defs)
  have h5: "member ?msg ''data'' = Some (spread [1, 2, 3])"
    by (simp add: eval_defs spread_def)
  have h6: "clocks_within 1000 (1000 + 50) [Sweep 1040] \<and> [9, 9, 9] \<noteq> [1, 2, 3 :: byte] \<and>
      sentMessages ?s (msgKey [9, 9, 9]) = None \<and>
      list_all (\<lambda>e. \<not> registers network_up [9, 9, 9] e) [Sweep 1040]"
    by (simp add: eval_defs)
  have before: "ws_sends (effects (run network_up (WsMessage 1 (Some ?msg) 1000 # [Sweep 1040]) ?s)) = []"
    "receivers (run network_up (WsMessage 1 (Some ?msg) 1000 # [Sweep 1040]) ?s) = [1, 2]"
    by (simp_all add: eval_defs)
  note t = type_no_echo_request [OF h1 h2 h3 h4 h5, where lib = network_up and ws = 1
      and ?t0.0 = 1000 and evs = "[Sweep 1040]" and rinfo = loopback and Q = "[9, 9, 9]"
      and rinfo' = loopback]
  from t [THEN conjunct2, THEN conjunct2, THEN conjunct2] h6
  have "ws_sends (effects (run network_up
       (WsMessage 1 (Some ?msg) 1000 # [Sweep 1040] @ [Datagram [1, 2, 3] loopback, Datagram [9, 9, 9] loopback]) ?s)) =
     ws_sends (effects (run network_up (WsMessage 1 (Some ?msg) 1000 # [Sweep 1040]) ?s)) @
       map (\<lambda>c. (c, udp_message loopback [9, 9, 9]))
         (receivers (run network_up (WsMessage 1 (Some ?msg) 1000 # [Sweep 1040]) ?s))"
    by (rule mp)
  then show ?thesis by (simp only: before append.simps list.map)
qed

text \<open>
  The claim of C3 about the key \<^verbatim>\<open>kind\<close> fails: the message of the scenario, with
  \<^verbatim>\<open>kind\<close> for its discriminator, is neither sent nor registered, and the datagram with
  its payload is pushed to the client that sent it.
\<close>

theorem kind_discriminator_counterexample:
  "effects (run network_up
      [BindListening 0, WsOpen 1,
       WsMessage 1 (Some (client_message ''kind'' ''udp-send-no-echo'' [1, 2, 3])) 1000,
       Datagram [1, 2, 3] loopback] startup) =
     [Console SocketListening, Console (BrowserConnected 1),
      WsSend 1 (udp_message loopback [1, 2, 3])]"
  by (simp add: eval_defs)


section \<open>Listeners and connections along a run\<close>

lemma fold_message_body_frame:
  "listeners (fold (\<lambda>parsed. message_body lib parsed now) ps s) = listeners s"
  "ws_data (fold (\<lambda>parsed. message_body lib parsed now) ps s) = ws_data s"
  "readyState (fold (\<lambda>parsed. message_body lib parsed now) ps s) = readyState s"
  "next_handler (fold (\<lambda>parsed. message_body lib parsed now) ps s) = next_handler s"
  by (induction ps arbitrary: s) (simp_all add: message_body_frame)

lemma step_wiring_frame:
  assumes "\<forall>ws. e \<noteq> WsOpen ws \<and> e \<noteq> WsClose ws \<and> e \<noteq> WsClosing ws"
  shows "listeners (step lib s e) = listeners s"
    and "ws_data (step lib s e) = ws_data s"
    and "readyState (step lib s e) = readyState s"
    and "next_handler (step lib s e) = next_handler s"
  using assms
  by (cases e;
      simp add: on_listening_def on_error_def sweep_def websocket_message_def perform_def
        fold_message_body_frame message_body_frame emit_frame split: promise.splits)+

lemma opened_append: "opened (evs @ evs') = opened evs @ opened evs'"
  by (induction evs rule: opened.induct) simp_all

lemma subscribed_snoc: "subscribed (evs @ [e]) ws = subscribed_step ws (subscribed evs ws) e"
  by (simp add: subscribed_def)

lemma is_connected_snoc: "is_connected (evs @ [e]) ws = is_connected_step ws (is_connected evs ws) e"
  by (simp add: is_connected_def)

lemma run_snoc: "run lib (evs @ [e]) s = step lib (run lib evs s) e"
  by (simp add: run_def)

text \<open>
  The invariant of a run in which no connection is opened twice: a listener is the
  handler stored in its connection, no two connections store the same handler, a
  connection has at most one listener, and the connections with a listener, and those
  whose channel is open, are the ones the events say.
\<close>

lemma wiring:
  assumes "distinct (opened evs)"
  shows "(\<forall>(h, w) \<in> set (listeners (run lib evs startup)). ws_data (run lib evs startup) w = Some h) \<and>
         (\<forall>w h. ws_data (run lib evs startup) w = Some h \<longrightarrow>
            h < next_handler (run lib evs startup) \<and> w \<in> set (opened evs)) \<and>
         (\<forall>w w' h. ws_data (run lib evs startup) w = Some h \<and>
            ws_data (run lib evs startup) w' = Some h \<longrightarrow> w = w') \<and>
         distinct (map snd (listeners (run lib evs startup))) \<and>
         (\<forall>w. w \<in> snd ` set (listeners (run lib evs startup)) \<longleftrightarrow> subscribed evs w) \<and>
         (\<forall>w. readyState (run lib evs startup) w = OPEN \<longleftrightarrow> is_connected evs w)"
  using assms
proof (induction evs rule: rev_induct)
  case Nil
  show ?case by (simp add: run_Nil startup_def subscribed_def is_connected_def)
next
  case (snoc e evs)
  let ?s = "run lib evs startup"
  from snoc.prems have d: "distinct (opened evs)"
    by (simp add: opened_append)
  note IH = snoc.IH [OF d]
  from IH have a: "\<And>h w. (h, w) \<in> set (listeners ?s) \<Longrightarrow> ws_data ?s w = Some h"
    by blast
  from IH have b: "\<And>w h. ws_data ?s w = Some h \<Longrightarrow> h < next_handler ?s"
    and c: "\<And>w h. ws_data ?s w = Some h \<Longrightarrow> w \<in> set (opened evs)"
    by blast+
  from IH have g: "\<And>w w' h. ws_data ?s w = Some h \<Longrightarrow> ws_data ?s w' = Some h \<Longrightarrow> w = w'"
    by blast
  from IH have dl: "distinct (map snd (listeners ?s))"
    by blast
  from IH have sub: "\<And>w. w \<in> snd ` set (listeners ?s) \<longleftrightarrow> subscribed evs w"
    and con: "\<And>w. readyState ?s w = OPEN \<longleftrightarrow> is_connected evs w"
    by blast+
  show ?case
  proof (cases e)
    case (WsOpen ws)
    with snoc.prems have fresh: "ws \<notin> set (opened evs)"
      by (simp add: opened_append)
    then have none: "ws_data ?s ws = None"
      using c by (cases "ws_data ?s ws") auto
    then have notin: "ws \<notin> snd ` set (listeners ?s)"
      using a by force
    have st: "step lib ?s e =
        ?s\<lparr>readyState := (readyState ?s)(ws := OPEN),
           effects := effects ?s @ [Console (BrowserConnected ws)],
           listeners := listeners ?s @ [(next_handler ?s, ws)],
           ws_data := (ws_data ?s)(ws \<mapsto> next_handler ?s),
           next_handler := Suc (next_handler ?s)\<rparr>"
      by (simp add: WsOpen websocket_open_def perform_def Let_def)
    have wd: "ws_data (step lib ?s e) w = (if w = ws then Some (next_handler ?s) else ws_data ?s w)"
      and nh: "next_handler (step lib ?s e) = Suc (next_handler ?s)"
      and ls: "listeners (step lib ?s e) = listeners ?s @ [(next_handler ?s, ws)]"
      and rs: "readyState (step lib ?s e) w = (if w = ws then OPEN else readyState ?s w)" for w
      by (simp_all add: st)
    have ev: "opened (evs @ [e]) = opened evs @ [ws]"
      "subscribed (evs @ [e]) w = (if w = ws then True else subscribed evs w)"
      "is_connected (evs @ [e]) w = (if w = ws then True else is_connected evs w)" for w
      by (simp_all add: WsOpen opened_append subscribed_snoc is_connected_snoc)
    have 1: "\<forall>(h, w) \<in> set (listeners (step lib ?s e)). ws_data (step lib ?s e) w = Some h"
      using a none by (auto simp: wd ls)
    have 2: "\<forall>w h. ws_data (step lib ?s e) w = Some h \<longrightarrow>
        h < next_handler (step lib ?s e) \<and> w \<in> set (opened (evs @ [e]))"
      using b c by (auto simp: wd nh ev less_Suc_eq split: if_splits)
    have 3: "\<forall>w w' h. ws_data (step lib ?s e) w = Some h \<and>
        ws_data (step lib ?s e) w' = Some h \<longrightarrow> w = w'"
    proof (intro allI impI)
      fix w w' h
      assume h: "ws_data (step lib ?s e) w = Some h \<and> ws_data (step lib ?s e) w' = Some h"
      show "w = w'"
      proof (cases "w = ws")
        case True
        with h have hn: "h = next_handler ?s" by (simp add: wd)
        show ?thesis
        proof (rule ccontr)
          assume "w \<noteq> w'"
          with True h have "ws_data ?s w' = Some h" by (simp add: wd)
          from b [OF this] hn show False by simp
        qed
      next
        case False
        with h have w: "ws_data ?s w = Some h" by (simp add: wd)
        show ?thesis
        proof (cases "w' = ws")
          case True
          with h have "h = next_handler ?s" by (simp add: wd)
          with b [OF w] show ?thesis by simp
        next
          case False
          with h have "ws_data ?s w' = Some h" by (simp add: wd)
          with w show ?thesis by (rule g)
        qed
      qed
    qed
    have 4: "distinct (map snd (listeners (step lib ?s e)))"
      using dl notin by (simp add: ls)
    have 5: "\<forall>w. w \<in> snd ` set (listeners (step lib ?s e)) \<longleftrightarrow> subscribed (evs @ [e]) w"
      using sub by (auto simp: ls ev)
    have 6: "\<forall>w. readyState (step lib ?s e) w = OPEN \<longleftrightarrow> is_connected (evs @ [e]) w"
      using con by (auto simp: rs ev)
    from 1 2 3 4 5 6 show ?thesis
      unfolding run_snoc by blast
  next
    case (WsClose ws)
    show ?thesis
    proof (cases "ws_data ?s ws")
      case None
      then have notin: "ws \<notin> snd ` set (listeners ?s)"
        using a by force
      have st: "step lib ?s e =
          ?s\<lparr>readyState := (readyState ?s)(ws := CLOSED),
             effects := effects ?s @ [Console BrowserDisconnected]\<rparr>"
        by (simp add: WsClose websocket_close_def perform_def Let_def None)
      show ?thesis
        unfolding run_snoc st
        using a b c g dl sub con notin WsClose
        by (auto simp: opened_append subscribed_snoc is_connected_snoc)
    next
      case (Some h)
      have st: "step lib ?s e =
          ?s\<lparr>readyState := (readyState ?s)(ws := CLOSED),
             effects := effects ?s @ [Console BrowserDisconnected],
             listeners := filter (\<lambda>l. fst l \<noteq> h) (listeners ?s)\<rparr>"
        by (simp add: WsClose websocket_close_def perform_def Let_def Some)
      have gone: "w \<in> snd ` set (filter (\<lambda>l. fst l \<noteq> h) (listeners ?s)) \<longleftrightarrow>
          w \<in> snd ` set (listeners ?s) \<and> w \<noteq> ws" for w
      proof
        assume "w \<in> snd ` set (filter (\<lambda>l. fst l \<noteq> h) (listeners ?s))"
        then obtain h' where in': "(h', w) \<in> set (listeners ?s)" and ne: "h' \<noteq> h"
          by auto
        from a [OF in'] Some ne have "w \<noteq> ws" by auto
        with in' show "w \<in> snd ` set (listeners ?s) \<and> w \<noteq> ws" by force
      next
        assume w: "w \<in> snd ` set (listeners ?s) \<and> w \<noteq> ws"
        then obtain h' where in': "(h', w) \<in> set (listeners ?s)" by auto
        from a [OF in'] Some w have "h' \<noteq> h" using g by blast
        with in' show "w \<in> snd ` set (filter (\<lambda>l. fst l \<noteq> h) (listeners ?s))" by force
      qed
      have dl': "distinct (map snd (filter (\<lambda>l. fst l \<noteq> h) (listeners ?s)))"
        using dl by (rule distinct_map_filter)
      show ?thesis
        unfolding run_snoc st
        using a b c g dl' sub con gone WsClose
        by (auto simp: opened_append subscribed_snoc is_connected_snoc)
    qed
  next
    case (WsClosing ws)
    show ?thesis
      unfolding run_snoc
      using a b c g dl sub con WsClosing
      by (auto simp: opened_append subscribed_snoc is_connected_snoc)
  next
    case (BindListening now)
    then have "\<forall>ws. e \<noteq> WsOpen ws \<and> e \<noteq> WsClose ws \<and> e \<noteq> WsClosing ws" by simp
    note fr = step_wiring_frame [OF this, of lib ?s]
    show ?thesis
      unfolding run_snoc fr
      using IH BindListening by (simp add: opened_append subscribed_snoc is_connected_snoc)
  next
    case BindError
    then have "\<forall>ws. e \<noteq> WsOpen ws \<and> e \<noteq> WsClose ws \<and> e \<noteq> WsClosing ws" by simp
    note fr = step_wiring_frame [OF this, of lib ?s]
    show ?thesis
      unfolding run_snoc fr
      using IH BindError by (simp add: opened_append subscribed_snoc is_connected_snoc)
  next
    case (Sweep now)
    then have "\<forall>ws. e \<noteq> WsOpen ws \<and> e \<noteq> WsClose ws \<and> e \<noteq> WsClosing ws" by simp
    note fr = step_wiring_frame [OF this, of lib ?s]
    show ?thesis
      unfolding run_snoc fr
      using IH Sweep by (simp add: opened_append subscribed_snoc is_connected_snoc)
  next
    case (WsMessage ws parsed now)
    then have "\<forall>ws. e \<noteq> WsOpen ws \<and> e \<noteq> WsClose ws \<and> e \<noteq> WsClosing ws" by simp
    note fr = step_wiring_frame [OF this, of lib ?s]
    show ?thesis
      unfolding run_snoc fr
      using IH WsMessage by (simp add: opened_append subscribed_snoc is_connected_snoc)
  next
    case (Datagram msg rinfo)
    then have "\<forall>ws. e \<noteq> WsOpen ws \<and> e \<noteq> WsClose ws \<and> e \<noteq> WsClosing ws" by simp
    note fr = step_wiring_frame [OF this, of lib ?s]
    show ?thesis
      unfolding run_snoc fr
      using IH Datagram by (simp add: opened_append subscribed_snoc is_connected_snoc)
  qed
qed

lemma is_connected_step_subscribed:
  "(a \<longrightarrow> b) \<Longrightarrow> is_connected_step c a e \<longrightarrow> subscribed_step c b e"
  by (cases e) auto

lemma foldl_is_connected_subscribed:
  "(a \<longrightarrow> b) \<Longrightarrow> foldl (is_connected_step c) a evs \<longrightarrow> foldl (subscribed_step c) b evs"
proof (induction evs arbitrary: a b)
  case Nil
  then show ?case by simp
next
  case (Cons e evs)
  from Cons.prems have "is_connected_step c a e \<longrightarrow> subscribed_step c b e"
    by (rule is_connected_step_subscribed)
  then show ?case by (simp add: Cons.IH)
qed

lemma is_connected_subscribed: "is_connected evs c \<Longrightarrow> subscribed evs c"
  using foldl_is_connected_subscribed [of False False c evs]
  by (simp add: is_connected_def subscribed_def)

lemma foldl_subscribed_not_opened:
  "c \<notin> set (opened evs) \<Longrightarrow> foldl (subscribed_step c) False evs = False"
proof (induction evs rule: rev_induct)
  case Nil
  then show ?case by simp
next
  case (snoc e evs)
  then show ?case by (cases e) (auto simp: opened_append)
qed

lemma closed_not_subscribed:
  "c \<notin> set (opened evs2) \<Longrightarrow> \<not> subscribed (evs1 @ WsClose c # evs2) c"
  by (simp add: subscribed_def foldl_subscribed_not_opened)

text \<open>
  C6.  In a run from the start in which no connection is opened twice, take a datagram
  whose payload has no entry in the table.  It is pushed once to each connection that
  has a listener and an open channel, as a \<^verbatim>\<open>udp-message\<close> with the source address,
  the source port and the bytes of the datagram; these connections are exactly the ones
  that were opened and have neither started closing nor closed since.  The connections
  with a listener are exactly those opened and not closed since: once \<^verbatim>\<open>close\<close> has run
  for a connection, it has no listener and no later datagram is pushed to it.
\<close>

theorem fan_out_to_connected:
  assumes "distinct (opened evs)"
  shows "(sentMessages (run lib evs startup) (msgKey msg) = None \<longrightarrow>
            ws_sends (effects (run lib (evs @ [Datagram msg rinfo]) startup)) =
            ws_sends (effects (run lib evs startup)) @
            map (\<lambda>c. (c, udp_message rinfo msg)) (receivers (run lib evs startup))) \<and>
         distinct (receivers (run lib evs startup)) \<and>
         (c \<in> set (receivers (run lib evs startup)) \<longleftrightarrow> is_connected evs c) \<and>
         (c \<in> snd ` set (listeners (run lib evs startup)) \<longleftrightarrow> subscribed evs c) \<and>
         (evs = evs1 @ WsClose c # evs2 \<and> c \<notin> set (opened evs2) \<longrightarrow>
            c \<notin> snd ` set (listeners (run lib evs startup)) \<and>
            c \<notin> set (receivers (run lib evs startup))) \<and>
         member (udp_message rinfo msg) ''type'' = Some (JStr ''udp-message'') \<and>
         member (udp_message rinfo msg) ''address'' = Some (JStr (address rinfo)) \<and>
         member (udp_message rinfo msg) ''port'' = Some (JNum (Finite (of_nat (port rinfo)))) \<and>
         member (udp_message rinfo msg) ''data'' = Some (spread msg)"
proof -
  let ?s = "run lib evs startup"
  note w = wiring [OF assms, of lib]
  from w have dl: "distinct (map snd (listeners ?s))"
    and sub: "c \<in> snd ` set (listeners ?s) \<longleftrightarrow> subscribed evs c"
    and con: "readyState ?s c = OPEN \<longleftrightarrow> is_connected evs c"
    by blast+
  have 1: "sentMessages ?s (msgKey msg) = None \<longrightarrow>
            ws_sends (effects (run lib (evs @ [Datagram msg rinfo]) startup)) =
            ws_sends (effects ?s) @ map (\<lambda>c. (c, udp_message rinfo msg)) (receivers ?s)"
    by (simp add: datagram_delivered)
  have 2: "distinct (receivers ?s)"
    using dl by (simp add: receivers_def)
  have 3: "c \<in> set (receivers ?s) \<longleftrightarrow> is_connected evs c"
    using sub con is_connected_subscribed [of evs c] by (auto simp: receivers_def)
  have 4: "evs = evs1 @ WsClose c # evs2 \<and> c \<notin> set (opened evs2) \<longrightarrow>
            c \<notin> snd ` set (listeners ?s) \<and> c \<notin> set (receivers ?s)"
  proof
    assume h: "evs = evs1 @ WsClose c # evs2 \<and> c \<notin> set (opened evs2)"
    then have "\<not> subscribed evs c"
      using closed_not_subscribed [of c evs2 evs1] by simp
    with sub have "c \<notin> snd ` set (listeners ?s)" by simp
    then show "c \<notin> snd ` set (listeners ?s) \<and> c \<notin> set (receivers ?s)"
      by (auto simp: receivers_def)
  qed
  from 1 2 3 sub 4 show ?thesis
    by (simp only: member_udp_message)
qed

theorem fan_out_to_connected_witness:
  "ws_sends (effects (run network_up
      ([BindListening 0, WsOpen 1, WsOpen 2, WsOpen 3, WsClose 2, WsClosing 3, WsOpen 4]
        @ [Datagram [5, 5, 5] loopback]) startup)) =
     [(1, udp_message loopback [5, 5, 5]), (4, udp_message loopback [5, 5, 5])] \<and>
   2 \<notin> snd ` set (listeners (run network_up
      [BindListening 0, WsOpen 1, WsOpen 2, WsOpen 3, WsClose 2, WsClosing 3, WsOpen 4] startup))"
proof -
  let ?evs = "[BindListening 0, WsOpen 1, WsOpen 2, WsOpen 3, WsClose 2, WsClosing 3, WsOpen 4]"
  have h1: "distinct (opened ?evs)"
    by simp
  have h2: "sentMessages (run network_up ?evs startup) (msgKey [5, 5, 5]) = None"
    by (simp add: eval_defs)
  have h3: "?evs = [BindListening 0, WsOpen 1, WsOpen 2, WsOpen 3] @ WsClose 2 # [WsClosing 3, WsOpen 4] \<and>
      2 \<notin> set (opened [WsClosing 3, WsOpen 4])"
    by simp
  have before: "ws_sends (effects (run network_up ?evs startup)) = []"
    "receivers (run network_up ?evs startup) = [1, 4]"
    by (simp_all add: eval_defs)
  note t = fan_out_to_connected [OF h1, where lib = network_up and msg = "[5, 5, 5]"
      and rinfo = loopback and c = 2 and ?evs1.0 = "[BindListening 0, WsOpen 1, WsOpen 2, WsOpen 3]"
      and ?evs2.0 = "[WsClosing 3, WsOpen 4]"]
  from t [THEN conjunct1] h2
  have "ws_sends (effects (run network_up (?evs @ [Datagram [5, 5, 5] loopback]) startup)) =
      ws_sends (effects (run network_up ?evs startup)) @
      map (\<lambda>c. (c, udp_message loopback [5, 5, 5])) (receivers (run network_up ?evs startup))"
    by (rule mp)
  then have a: "ws_sends (effects (run network_up (?evs @ [Datagram [5, 5, 5] loopback]) startup)) =
      [(1, udp_message loopback [5, 5, 5]), (4, udp_message loopback [5, 5, 5])]"
    by (simp only: before append.simps list.map)
  from t [THEN conjunct2, THEN conjunct2, THEN conjunct2, THEN conjunct2, THEN conjunct1] h3
  have "2 \<notin> snd ` set (listeners (run network_up ?evs startup)) \<and>
      2 \<notin> set (receivers (run network_up ?evs startup))"
    by (rule mp)
  then have b: "2 \<notin> snd ` set (listeners (run network_up ?evs startup))"
    by (rule conjunct1)
  from a b show ?thesis by (rule conjI)
qed

end
